theory Spec2Isabelle
  imports Main "HOL-Library.Sublist"
begin

section \<open>JavaScript strings and the regular expressions the code uses\<close>

text \<open>
  A JavaScript string is a sequence of UTF-16 code units; \<open>length\<close>, \<open>replace\<close>,
  \<open>trim\<close> and the regular expressions (none has the \<open>u\<close> flag) all work on code units.
  A code unit is a natural number; \<open>lit\<close> embeds an ASCII literal of the source.
\<close>

type_synonym cu = nat
type_synonym jsstring = "cu list"

definition lit :: "string \<Rightarrow> jsstring" where
  "lit s = map of_char s"

text \<open>The music note U+266A of the source.\<close>

definition musicNote :: cu where
  "musicNote = 9834"

text \<open>
  White space as \<open>\s\<close> and \<open>String.prototype.trim\<close> read it: TAB, LF, VT, FF, CR, SP,
  NBSP, U+1680, U+2000..U+200A, LS, PS, U+202F, U+205F, U+3000 and U+FEFF.
\<close>

definition isWhite :: "cu \<Rightarrow> bool" where
  "isWhite c \<longleftrightarrow>
     c = 9 \<or> c = 10 \<or> c = 11 \<or> c = 12 \<or> c = 13 \<or> c = 32 \<or> c = 160 \<or> c = 5760 \<or>
     (8192 \<le> c \<and> c \<le> 8202) \<or> c = 8232 \<or> c = 8233 \<or> c = 8239 \<or> c = 8287 \<or>
     c = 12288 \<or> c = 65279"

definition trim :: "jsstring \<Rightarrow> jsstring" where
  "trim s = rev (dropWhile isWhite (rev (dropWhile isWhite s)))"

text \<open>\<open>[a-zA-Z0-9_-]\<close> and \<open>\w\<close> = \<open>[A-Za-z0-9_]\<close>.\<close>

definition isWord :: "cu \<Rightarrow> bool" where
  "isWord c \<longleftrightarrow> (97 \<le> c \<and> c \<le> 122) \<or> (65 \<le> c \<and> c \<le> 90) \<or> (48 \<le> c \<and> c \<le> 57) \<or> c = 95"

definition idChar :: "cu \<Rightarrow> bool" where
  "idChar c \<longleftrightarrow> (97 \<le> c \<and> c \<le> 122) \<or> (65 \<le> c \<and> c \<le> 90) \<or> (48 \<le> c \<and> c \<le> 57) \<or> c = 95 \<or> c = 45"

text \<open>
  Every regular expression of the source is a sequence of character classes, some
  followed by an optional or repeated class. A class is a predicate on code units;
  \<open>matchClasses cs s\<close> says that \<open>s\<close> starts with one code unit of each class of \<open>cs\<close>,
  in order.
\<close>

type_synonym cclass = "cu \<Rightarrow> bool"

fun matchClasses :: "cclass list \<Rightarrow> jsstring \<Rightarrow> bool" where
  "matchClasses [] s = True"
| "matchClasses (c # cs) [] = False"
| "matchClasses (c # cs) (x # xs) = (c x \<and> matchClasses cs xs)"

text \<open>A literal, and a literal under the \<open>i\<close> flag. Without the \<open>u\<close> flag a code unit
  above 127 never canonicalizes to an ASCII one, so only the ASCII letters fold.\<close>

definition isChar :: "cu \<Rightarrow> cclass" where
  "isChar a = (\<lambda>x. x = a)"

definition upperCu :: "cu \<Rightarrow> cu" where
  "upperCu c = (if 97 \<le> c \<and> c \<le> 122 then c - 32 else c)"

definition isCharCI :: "cu \<Rightarrow> cclass" where
  "isCharCI a = (\<lambda>x. upperCu x = upperCu a)"

definition literal :: "string \<Rightarrow> cclass list" where
  "literal s = map isChar (lit s)"

definition literalCI :: "string \<Rightarrow> cclass list" where
  "literalCI s = map isCharCI (lit s)"

text \<open>
  \<open>url.match(re)\<close> for a regular expression without the \<open>g\<close> flag: the leftmost
  position at which the expression matches. The result is the rest of the subject from
  that position on, from which the caller cuts its capture group.
\<close>

fun regexSearch :: "cclass list \<Rightarrow> jsstring \<Rightarrow> jsstring option" where
  "regexSearch cs [] = (if matchClasses cs [] then Some [] else None)"
| "regexSearch cs (x # xs) =
     (if matchClasses cs (x # xs) then Some (x # xs) else regexSearch cs xs)"

section \<open>extractVideoId\<close>

text \<open>
  The four patterns of \<open>extractVideoId\<close>, in the order of the source's array: a literal
  marker (a non-capturing group) and one capture group of exactly eleven code units of
  \<open>[a-zA-Z0-9_-]\<close>.
\<close>

definition markers :: "string list" where
  "markers = [''youtube.com/watch?v='', ''youtu.be/'', ''youtube.com/embed/'', ''youtube.com/shorts/'']"

definition idPattern :: "string \<Rightarrow> cclass list" where
  "idPattern m = literal m @ replicate 11 idChar"

text \<open>\<open>match[1]\<close>: the eleven code units after the marker.\<close>

definition matchGroup1 :: "string \<Rightarrow> jsstring \<Rightarrow> jsstring option" where
  "matchGroup1 m url =
     (case regexSearch (idPattern m) url of
        None \<Rightarrow> None
      | Some rest \<Rightarrow> Some (take 11 (drop (length m) rest)))"

text \<open>The \<open>for\<close> loop over the patterns: the first pattern that matches anywhere wins.\<close>

fun firstPattern :: "string list \<Rightarrow> jsstring \<Rightarrow> jsstring option" where
  "firstPattern [] url = None"
| "firstPattern (m # ms) url =
     (case matchGroup1 m url of
        Some v \<Rightarrow> Some v
      | None \<Rightarrow> firstPattern ms url)"

definition extractVideoId :: "jsstring \<Rightarrow> jsstring option" where
  "extractVideoId url = firstPattern markers url"

text \<open>
  The shapes in the words of the specification: the URL contains the marker followed at
  once by an identifier of eleven code units of \<open>[a-zA-Z0-9_-]\<close>. \<open>shapeIds m url\<close> lists
  the identifier at every place of \<open>url\<close> where the shape of marker \<open>m\<close> occurs, from
  left to right; \<open>allShapeIds\<close> lists them for the four markers in the order of the
  source's array.
\<close>

definition validId :: "jsstring \<Rightarrow> bool" where
  "validId v \<longleftrightarrow> length v = 11 \<and> list_all idChar v"

fun shapeIds :: "string \<Rightarrow> jsstring \<Rightarrow> jsstring list" where
  "shapeIds m [] = []"
| "shapeIds m (x # xs) =
     (if prefix (lit m) (x # xs) \<and> validId (take 11 (drop (length m) (x # xs)))
      then take 11 (drop (length m) (x # xs)) # shapeIds m xs
      else shapeIds m xs)"

definition allShapeIds :: "jsstring \<Rightarrow> jsstring list" where
  "allShapeIds url = concat (map (\<lambda>m. shapeIds m url) markers)"


section \<open>Global replacement\<close>

text \<open>
  A regular expression under the \<open>g\<close> flag of \<open>String.prototype.replace\<close> is read through
  its matcher: \<open>re s = Some n\<close> when the expression matches the first \<open>n\<close> code units of
  \<open>s\<close> (the longest match: every quantifier of the source is greedy and is followed by
  nothing), \<open>None\<close> when it does not match at the start of \<open>s\<close>. No expression of the
  source matches the empty string.
\<close>

type_synonym regex = "jsstring \<Rightarrow> nat option"

definition reClasses :: "cclass list \<Rightarrow> regex" where
  "reClasses cs s = (if matchClasses cs s then Some (length cs) else None)"

text \<open>\<open>/\s+/\<close>\<close>

definition reWhitePlus :: regex where
  "reWhitePlus s = (case length (takeWhile isWhite s) of 0 \<Rightarrow> None | Suc n \<Rightarrow> Some (Suc n))"

text \<open>A sequence of classes followed by an optional class (\<open>/```json\n?/\<close>) or by a
  repeated class (\<open>/```\s*/\<close>).\<close>

definition reThenOpt :: "cclass list \<Rightarrow> cclass \<Rightarrow> regex" where
  "reThenOpt cs c s =
     (if matchClasses cs s
      then Some (length cs + (case drop (length cs) s of [] \<Rightarrow> 0 | x # _ \<Rightarrow> if c x then 1 else 0))
      else None)"

definition reThenStar :: "cclass list \<Rightarrow> cclass \<Rightarrow> regex" where
  "reThenStar cs c s =
     (if matchClasses cs s
      then Some (length cs + length (takeWhile c (drop (length cs) s)))
      else None)"

text \<open>
  \<open>s.replace(re, r)\<close> with a global \<open>re\<close> and a replacement string without \<open>$\<close>: scan from
  the left; at a match emit \<open>r\<close> and continue after the match, otherwise copy one code
  unit.
\<close>

fun replaceAll :: "regex \<Rightarrow> jsstring \<Rightarrow> jsstring \<Rightarrow> jsstring" where
  "replaceAll re r [] = []"
| "replaceAll re r (x # xs) =
     (case re (x # xs) of
        Some (Suc k) \<Rightarrow> r @ replaceAll re r (drop k xs)
      | _ \<Rightarrow> x # replaceAll re r xs)"

text \<open>\<open>Array.prototype.join\<close> on strings.\<close>

fun join :: "jsstring \<Rightarrow> jsstring list \<Rightarrow> jsstring" where
  "join sep [] = []"
| "join sep [x] = x"
| "join sep (x # y # ys) = x @ sep @ join sep (y # ys)"

section \<open>Errors\<close>

text \<open>
  Every failure of the source is \<open>throw new Error(message)\<close>. One constructor per
  message, named as the specification names the failure:
  \<^item> \<open>InvalidInput\<close>: "Invalid YouTube URL" (\<open>extractTranscript\<close>) and "At least one face
    photo is required" (\<open>analyzeFace\<close>);
  \<^item> \<open>NoTranscriptAvailable\<close>: "Could not extract transcript. ...";
  \<^item> \<open>NoContentAvailable\<close>: "Could not extract any information from this video. ...";
  \<^item> \<open>AnalysisParseError\<close>: "Failed to parse video analysis. Please try again.";
  \<^item> \<open>ConfigurationError\<close>: "OPENROUTER_API_KEY not set";
  \<^item> \<open>ProviderError status body\<close>: "OpenRouter API error (status): body" and
    "OpenRouter image API error (status): body";
  \<^item> \<open>NetworkError\<close>: \<open>fetch\<close> or \<open>response.json()\<close> of the provider call rejects;
  \<^item> \<open>NoMessageInResponse\<close>: "No message in OpenRouter response";
  \<^item> \<open>NoImageReturned\<close>: "No image returned from OpenRouter";
  \<^item> \<open>NoThumbnailsGenerated\<close>: "Failed to generate any thumbnails. Please try again.".
\<close>

datatype error =
    InvalidInput
  | NoTranscriptAvailable
  | NoContentAvailable
  | AnalysisParseError
  | ConfigurationError
  | ProviderError nat jsstring
  | NetworkError
  | NoMessageInResponse
  | NoImageReturned
  | NoThumbnailsGenerated

section \<open>extractTranscript\<close>

text \<open>
  The four transcript sources are outside the program. Each is a function from what the
  call is given (the video identifier for the library, the URL for the others) to what
  the call does:
  \<^item> the library call \<open>YoutubeTranscript.fetchTranscript(videoId)\<close> rejects, or resolves to
    \<open>null\<close>/\<open>undefined\<close> (\<open>LibSegments None\<close>), or to the list of segments, of which the
    code reads the \<open>text\<close> only;
  \<^item> the command-line tool fails (absent, non-zero exit, timeout) or prints \<open>stdout\<close>;
  \<^item> a web API call rejects (also when its body is not JSON), or answers with a status
    that is not \<open>ok\<close>, or with a JSON body.
  The JSON bodies are read at the types the function's signature relies on
  (\<open>Promise<string>\<close>): \<open>transcript\<close>, \<open>text\<close> are strings when present, \<open>content\<close> is a
  string or an array of objects with a string \<open>text\<close>.
\<close>

datatype lib_outcome = LibThrows | LibSegments "jsstring list option"

datatype vtd_outcome = VtdThrows | VtdStdout jsstring

datatype 'a fetch_outcome = FetchThrows | FetchNotOk | FetchOk 'a

record api1_body =
  body_transcript :: "jsstring option"
  body_text :: "jsstring option"

datatype api2_content = ContentString jsstring | ContentArray "jsstring list"

record transcript_env =
  fetchTranscript :: "jsstring \<Rightarrow> lib_outcome"
  runVtd :: "jsstring \<Rightarrow> vtd_outcome"
  fetchApi1 :: "jsstring \<Rightarrow> api1_body fetch_outcome"
  fetchApi2 :: "jsstring \<Rightarrow> api2_content option fetch_outcome"

datatype source = SrcLibrary | SrcVtd | SrcApi1 | SrcApi2

text \<open>
  The cleaning of source (a): the chain of \<open>replace\<close> calls, \<open>trim\<close> and the white-space
  collapse, in the order of the source. \<open>replaceLit p r\<close> is \<open>.replace(/p/g, r)\<close> for a
  literal \<open>p\<close>; the code units 39 and 34 are the apostrophe and the double quote; \<open>bracketNotes\<close> is the string of the pattern with three music notes between brackets.
\<close>

definition replaceLit :: "string \<Rightarrow> jsstring \<Rightarrow> jsstring \<Rightarrow> jsstring" where
  "replaceLit p r t = replaceAll (reClasses (literal p)) r t"

definition decodeEntities :: "jsstring \<Rightarrow> jsstring" where
  "decodeEntities t =
     replaceLit ''&gt;'' (lit ''>'')
      (replaceLit ''&lt;'' (lit ''<'')
        (replaceLit ''&quot;'' [34]
          (replaceLit ''&#39;'' [39]
            (replaceLit ''&amp;'' (lit ''&'') t))))"

definition bracketNotes :: jsstring where
  "bracketNotes = lit ''['' @ replicate 3 musicNote @ lit '']''"

definition removeBracketNotes :: "jsstring \<Rightarrow> jsstring" where
  "removeBracketNotes t = replaceAll (reClasses (map isChar bracketNotes)) [] t"

definition removeNotes :: "jsstring \<Rightarrow> jsstring" where
  "removeNotes t = replaceAll (reClasses [isChar musicNote]) [] t"

definition removeMusicTag :: "jsstring \<Rightarrow> jsstring" where
  "removeMusicTag t = replaceAll (reClasses (literalCI ''[Music]'')) [] t"

definition removeMusic :: "jsstring \<Rightarrow> jsstring" where
  "removeMusic t = removeMusicTag (removeNotes (removeBracketNotes t))"

definition cleanTranscript :: "jsstring \<Rightarrow> jsstring" where
  "cleanTranscript t =
     replaceAll reWhitePlus (lit '' '') (trim (removeMusic (decodeEntities t)))"

text \<open>
  Each \<open>try\<close> block of \<open>extractTranscript\<close>: \<open>Some t\<close> when the block returns \<open>t\<close>, \<open>None\<close>
  when it falls through (its condition fails, or its \<open>catch\<close> swallows an exception).
\<close>

definition tryLibrary :: "transcript_env \<Rightarrow> jsstring \<Rightarrow> jsstring option" where
  "tryLibrary env videoId =
     (case fetchTranscript env videoId of
        LibThrows \<Rightarrow> None
      | LibSegments None \<Rightarrow> None
      | LibSegments (Some segments) \<Rightarrow>
          if length segments > 0
          then (let transcript = cleanTranscript (join (lit '' '') segments)
                in if length transcript > 20 then Some transcript else None)
          else None)"

definition tryVtd :: "transcript_env \<Rightarrow> jsstring \<Rightarrow> jsstring option" where
  "tryVtd env youtubeUrl =
     (case runVtd env youtubeUrl of
        VtdThrows \<Rightarrow> None
      | VtdStdout stdout \<Rightarrow>
          (let transcript = trim stdout
           in if transcript \<noteq> [] \<and> length transcript > 20 then Some transcript else None))"

text \<open>\<open>a || b\<close> on optional strings: a string is truthy when it is present and not empty.\<close>

definition truthy :: "jsstring option \<Rightarrow> bool" where
  "truthy v \<longleftrightarrow> (case v of None \<Rightarrow> False | Some s \<Rightarrow> s \<noteq> [])"

definition orElse :: "jsstring option \<Rightarrow> jsstring option \<Rightarrow> jsstring option" where
  "orElse a b = (if truthy a then a else b)"

definition tryApi1 :: "transcript_env \<Rightarrow> jsstring \<Rightarrow> jsstring option" where
  "tryApi1 env youtubeUrl =
     (case fetchApi1 env youtubeUrl of
        FetchOk data \<Rightarrow>
          if truthy (orElse (body_transcript data) (body_text data))
          then orElse (body_transcript data) (body_text data)
          else None
      | _ \<Rightarrow> None)"

definition tryApi2 :: "transcript_env \<Rightarrow> jsstring \<Rightarrow> jsstring option" where
  "tryApi2 env youtubeUrl =
     (case fetchApi2 env youtubeUrl of
        FetchOk (Some (ContentString s)) \<Rightarrow> if s \<noteq> [] then Some s else None
      | FetchOk (Some (ContentArray cs)) \<Rightarrow> Some (join (lit '' '') cs)
      | _ \<Rightarrow> None)"

text \<open>
  \<open>extractTranscript\<close>: the result (the error thrown or the string returned) and the
  sources invoked, in the order of their invocation.
\<close>

definition extractTranscript ::
  "transcript_env \<Rightarrow> jsstring \<Rightarrow> (error + jsstring) \<times> source list" where
  "extractTranscript env youtubeUrl =
     (case extractVideoId youtubeUrl of
        None \<Rightarrow> (Inl InvalidInput, [])
      | Some videoId \<Rightarrow>
         (case tryLibrary env videoId of
            Some t \<Rightarrow> (Inr t, [SrcLibrary])
          | None \<Rightarrow>
             (case tryVtd env youtubeUrl of
                Some t \<Rightarrow> (Inr t, [SrcLibrary, SrcVtd])
              | None \<Rightarrow>
                 (case tryApi1 env youtubeUrl of
                    Some t \<Rightarrow> (Inr t, [SrcLibrary, SrcVtd, SrcApi1])
                  | None \<Rightarrow>
                     (case tryApi2 env youtubeUrl of
                        Some t \<Rightarrow> (Inr t, [SrcLibrary, SrcVtd, SrcApi1, SrcApi2])
                      | None \<Rightarrow>
                          (Inl NoTranscriptAvailable,
                           [SrcLibrary, SrcVtd, SrcApi1, SrcApi2]))))))"

text \<open>An environment in which every transcript source fails.\<close>

definition silentEnv :: transcript_env where
  "silentEnv =
     \<lparr>fetchTranscript = (\<lambda>_. LibThrows), runVtd = (\<lambda>_. VtdThrows),
      fetchApi1 = (\<lambda>_. FetchThrows), fetchApi2 = (\<lambda>_. FetchThrows)\<rparr>"

text \<open>
  What each source produced, whatever the code then does with it: the text (for source
  (a) the cleaned text) when the call delivered one, \<open>None\<close> when the call failed or its
  answer carried no text.
\<close>

definition libYield :: "transcript_env \<Rightarrow> jsstring \<Rightarrow> jsstring option" where
  "libYield env videoId =
     (case fetchTranscript env videoId of
        LibSegments (Some segments) \<Rightarrow> Some (cleanTranscript (join (lit '' '') segments))
      | _ \<Rightarrow> None)"

definition vtdYield :: "transcript_env \<Rightarrow> jsstring \<Rightarrow> jsstring option" where
  "vtdYield env youtubeUrl =
     (case runVtd env youtubeUrl of VtdStdout stdout \<Rightarrow> Some (trim stdout) | _ \<Rightarrow> None)"

definition api1Yield :: "transcript_env \<Rightarrow> jsstring \<Rightarrow> jsstring option" where
  "api1Yield env youtubeUrl =
     (case fetchApi1 env youtubeUrl of
        FetchOk data \<Rightarrow> orElse (body_transcript data) (body_text data)
      | _ \<Rightarrow> None)"

definition api2Yield :: "transcript_env \<Rightarrow> jsstring \<Rightarrow> jsstring option" where
  "api2Yield env youtubeUrl =
     (case fetchApi2 env youtubeUrl of
        FetchOk (Some (ContentString s)) \<Rightarrow> Some s
      | FetchOk (Some (ContentArray cs)) \<Rightarrow> Some (join (lit '' '') cs)
      | _ \<Rightarrow> None)"

text \<open>The source produced text longer than 20 code units.\<close>

definition longText :: "jsstring option \<Rightarrow> bool" where
  "longText y \<longleftrightarrow> (case y of None \<Rightarrow> False | Some t \<Rightarrow> length t > 20)"

text \<open>
  An environment in which sources (a) and (b) fail, source (c) answers with the
  two-character transcript "hi" and source (d) with a string of 26 characters.
\<close>

definition shortApi1Env :: transcript_env where
  "shortApi1Env =
     \<lparr>fetchTranscript = (\<lambda>_. LibThrows), runVtd = (\<lambda>_. VtdThrows),
      fetchApi1 = (\<lambda>_. FetchOk \<lparr>body_transcript = Some (lit ''hi''), body_text = None\<rparr>),
      fetchApi2 = (\<lambda>_. FetchOk (Some (ContentString (lit ''abcdefghijklmnopqrstuvwxyz''))))\<rparr>"

text \<open>An environment in which the library delivers one segment of 26 characters and
  every other source fails.\<close>

definition libraryEnv :: transcript_env where
  "libraryEnv =
     \<lparr>fetchTranscript = (\<lambda>_. LibSegments (Some [lit ''abcdefghijklmnopqrstuvwxyz''])),
      runVtd = (\<lambda>_. VtdThrows),
      fetchApi1 = (\<lambda>_. FetchThrows), fetchApi2 = (\<lambda>_. FetchThrows)\<rparr>"

text \<open>Environments in which only the command-line tool, or only the second web API
  (with an array of two segments), delivers a text.\<close>

definition vtdEnv :: transcript_env where
  "vtdEnv =
     \<lparr>fetchTranscript = (\<lambda>_. LibThrows),
      runVtd = (\<lambda>_. VtdStdout (lit ''  abcdefghijklmnopqrstuvwxyz '')),
      fetchApi1 = (\<lambda>_. FetchThrows), fetchApi2 = (\<lambda>_. FetchThrows)\<rparr>"

definition api2Env :: transcript_env where
  "api2Env =
     \<lparr>fetchTranscript = (\<lambda>_. LibSegments (Some [])), runVtd = (\<lambda>_. VtdStdout (lit ''short'')),
      fetchApi1 = (\<lambda>_. FetchNotOk),
      fetchApi2 = (\<lambda>_. FetchOk (Some (ContentArray [lit ''abcdefghijklm'', lit ''nopqrstuvwxyz''])))\<rparr>"

text \<open>
  An environment in which the library delivers one segment of five encoded ampersands
  (25 code units before the cleaning, 5 after it) and the command-line tool prints a
  text of 29 code units that contains HTML entities.
\<close>

definition entityEnv :: transcript_env where
  "entityEnv =
     \<lparr>fetchTranscript = (\<lambda>_. LibSegments (Some [lit ''&amp;&amp;&amp;&amp;&amp;''])),
      runVtd = (\<lambda>_. VtdStdout (lit ''Tom &amp; Jerry &lt;3 forever'')),
      fetchApi1 = (\<lambda>_. FetchThrows), fetchApi2 = (\<lambda>_. FetchThrows)\<rparr>"

section \<open>Auxiliary notions for the proofs about global replacement\<close>

text \<open>
  \<open>canStart cs s\<close>: the code units \<open>s\<close> agree with the classes \<open>cs\<close> as far as both go, so
  a match of \<open>cs\<close> could start with \<open>s\<close>. \<open>untouched cs q\<close>: no match of \<open>cs\<close> can start
  inside \<open>q\<close>, whatever follows. \<open>passes cs q\<close>: moreover no match that starts before \<open>q\<close>
  can reach into it, so a global replacement of \<open>cs\<close> copies an occurrence of \<open>q\<close> as it
  is, in every context.
\<close>

fun canStart :: "cclass list \<Rightarrow> jsstring \<Rightarrow> bool" where
  "canStart [] s = True"
| "canStart (c # cs) [] = True"
| "canStart (c # cs) (x # xs) = (c x \<and> canStart cs xs)"

fun untouched :: "cclass list \<Rightarrow> jsstring \<Rightarrow> bool" where
  "untouched cs [] = True"
| "untouched cs (y # q) = (\<not> canStart cs (y # q) \<and> untouched cs q)"

definition passes :: "cclass list \<Rightarrow> jsstring \<Rightarrow> bool" where
  "passes cs q \<longleftrightarrow> q \<noteq> [] \<and> untouched cs q \<and> (\<forall>c\<in>set (tl cs). \<not> c (hd q))"

text \<open>The text after an ampersand does not continue it to one of the entities
  \<open>&#39;\<close>, \<open>&quot;\<close>, \<open>&lt;\<close>, \<open>&gt;\<close>: it starts with none of \<open>#39;\<close>, \<open>quot;\<close>, \<open>lt;\<close>, \<open>gt;\<close>.\<close>

definition noEntityTail :: "jsstring \<Rightarrow> bool" where
  "noEntityTail b \<longleftrightarrow>
     \<not> prefix (lit ''#39;'') b \<and> \<not> prefix (lit ''quot;'') b
     \<and> \<not> prefix (lit ''lt;'') b \<and> \<not> prefix (lit ''gt;'') b"

section \<open>A transcript as a sequence of pieces\<close>

text \<open>
  In the words of the specification: a transcript of the library is a sequence of pieces,
  each a stretch of plain text, one of the five HTML entities, an entity whose ampersand
  is encoded once more (\<open>&amp;#39;\<close>, \<open>&amp;quot;\<close>, \<open>&amp;lt;\<close>, \<open>&amp;gt;\<close>), or a music
  marker: the three notes between brackets, a single note, or \<open>[Music]\<close> in some letter
  case. \<open>written\<close> is the piece as it stands in the transcript, \<open>decoded\<close> the piece after
  the decoding of the entities, and \<open>cleaned\<close> what the cleaning is to leave of it: the
  character of an entity, nothing of a marker.
\<close>

datatype piece =
    Plain jsstring
  | EntAmp
  | EntApos
  | EntQuot
  | EntLt
  | EntGt
  | DoubleApos
  | DoubleQuot
  | DoubleLt
  | DoubleGt
  | MarkNotes
  | MarkNote
  | MarkMusic jsstring

fun written :: "piece \<Rightarrow> jsstring" where
  "written (Plain s) = s"
| "written EntAmp = lit ''&amp;''"
| "written EntApos = lit ''&#39;''"
| "written EntQuot = lit ''&quot;''"
| "written EntLt = lit ''&lt;''"
| "written EntGt = lit ''&gt;''"
| "written DoubleApos = lit ''&amp;#39;''"
| "written DoubleQuot = lit ''&amp;quot;''"
| "written DoubleLt = lit ''&amp;lt;''"
| "written DoubleGt = lit ''&amp;gt;''"
| "written MarkNotes = bracketNotes"
| "written MarkNote = [musicNote]"
| "written (MarkMusic m) = m"

fun decoded :: "piece \<Rightarrow> jsstring" where
  "decoded (Plain s) = s"
| "decoded EntAmp = lit ''&''"
| "decoded EntApos = [39]"
| "decoded EntQuot = [34]"
| "decoded EntLt = lit ''<''"
| "decoded EntGt = lit ''>''"
| "decoded DoubleApos = [39]"
| "decoded DoubleQuot = [34]"
| "decoded DoubleLt = lit ''<''"
| "decoded DoubleGt = lit ''>''"
| "decoded MarkNotes = bracketNotes"
| "decoded MarkNote = [musicNote]"
| "decoded (MarkMusic m) = m"

fun cleaned :: "piece \<Rightarrow> jsstring" where
  "cleaned (Plain s) = s"
| "cleaned EntAmp = lit ''&''"
| "cleaned EntApos = [39]"
| "cleaned EntQuot = [34]"
| "cleaned EntLt = lit ''<''"
| "cleaned EntGt = lit ''>''"
| "cleaned DoubleApos = [39]"
| "cleaned DoubleQuot = [34]"
| "cleaned DoubleLt = lit ''<''"
| "cleaned DoubleGt = lit ''>''"
| "cleaned MarkNotes = []"
| "cleaned MarkNote = []"
| "cleaned (MarkMusic m) = []"

text \<open>
  A sequence of pieces is well formed when its plain stretches contain no ampersand, no
  opening bracket and no music note, its \<open>[Music]\<close> markers are that word in some letter
  case, and the text written after an \<open>&amp;\<close> does not continue the decoded ampersand to
  another entity.
\<close>

fun pieceOk :: "piece \<Rightarrow> bool" where
  "pieceOk (Plain s) = list_all (\<lambda>c. c \<noteq> 38 \<and> c \<noteq> 91 \<and> c \<noteq> musicNote) s"
| "pieceOk (MarkMusic m) = (map upperCu m = lit ''[MUSIC]'')"
| "pieceOk p = True"

fun wellFormed :: "piece list \<Rightarrow> bool" where
  "wellFormed [] = True"
| "wellFormed (p # ps) =
     (pieceOk p \<and> (p = EntAmp \<longrightarrow> noEntityTail (concat (map written ps))) \<and> wellFormed ps)"

text \<open>
  Example values: a transcript in thirteen pieces; an environment in which the library
  delivers that transcript in two segments and every other source fails; and one in
  which the library delivers a segment with a doubly encoded \<open><\<close>.
\<close>

definition examplePieces :: "piece list" where
  "examplePieces =
     [Plain (lit ''Tom ''), EntAmp, Plain (lit '' Jerry ''), MarkMusic (lit ''[music]''),
      Plain (lit '' say ''), EntQuot, Plain (lit ''hello there''), EntQuot, Plain (lit '' ''),
      DoubleLt, Plain (lit ''3''), MarkNotes, MarkNote]"

definition piecesEnv :: transcript_env where
  "piecesEnv =
     \<lparr>fetchTranscript =
        (\<lambda>_. LibSegments
               (Some [lit ''Tom &amp; Jerry [music]'',
                      lit ''say &quot;hello there&quot; &amp;lt;3'' @ bracketNotes @ [musicNote]])),
      runVtd = (\<lambda>_. VtdThrows),
      fetchApi1 = (\<lambda>_. FetchThrows), fetchApi2 = (\<lambda>_. FetchThrows)\<rparr>"

definition doubleEncodedEnv :: transcript_env where
  "doubleEncodedEnv =
     \<lparr>fetchTranscript = (\<lambda>_. LibSegments (Some [lit ''1 &amp;lt; 2 is what the speaker said''])),
      runVtd = (\<lambda>_. VtdThrows),
      fetchApi1 = (\<lambda>_. FetchThrows), fetchApi2 = (\<lambda>_. FetchThrows)\<rparr>"

section \<open>The provider client\<close>

text \<open>
  The hosted provider is outside the program: a call is a function from the request to
  what \<open>fetch\<close> does. It rejects (\<open>HttpThrows\<close>, also when the body is not JSON), or answers
  with a status that is not \<open>ok\<close> and a body text, or with a parsed \<open>OpenRouterResponse\<close>.
  The response is read at its declared interface: \<open>choices\<close> is an array of messages; the
  \<open>content\<close> of a message is a string, an array of parts, or missing; \<open>images\<close> is optional,
  and each of its entries is read through \<open>image_url?.url\<close> only (\<open>None\<close>: no such field).
\<close>

record content_part =
  part_type :: jsstring
  part_text :: "jsstring option"
  part_url :: "jsstring option"

datatype content = ContentText jsstring | ContentParts "content_part list" | ContentMissing

record message =
  msg_content :: content
  msg_images :: "jsstring option list option"

record response =
  choices :: "message list"

datatype 'a http_outcome = HttpThrows | HttpError nat jsstring | HttpOk 'a

definition MODEL_ANALYSIS :: jsstring where
  "MODEL_ANALYSIS = lit ''anthropic/claude-3.5-sonnet''"

definition MODEL_IMAGE_FLASH :: jsstring where
  "MODEL_IMAGE_FLASH = lit ''google/gemini-2.5-flash-image''"

text \<open>\<open>a || b\<close> and \<open>a ?? b\<close> with a default.\<close>

definition orDefault :: "jsstring option \<Rightarrow> jsstring \<Rightarrow> jsstring" where
  "orDefault a d = (case a of None \<Rightarrow> d | Some s \<Rightarrow> if s = [] then d else s)"

definition isTextPart :: "content_part \<Rightarrow> bool" where
  "isTextPart p \<longleftrightarrow> part_type p = lit ''text''"

definition isImagePart :: "content_part \<Rightarrow> bool" where
  "isImagePart p \<longleftrightarrow> part_type p = lit ''image_url'' \<and> truthy (part_url p)"

subsection \<open>textCompletion\<close>

text \<open>
  The request of a completion: the model, the content of its single user message, the
  temperature in tenths (0.7 is 7) and the token cap. \<open>textCompletion\<close> returns its result
  and the requests it sent.
\<close>

record completion_request =
  req_model :: jsstring
  req_content :: content
  req_temperature10 :: nat
  req_max_tokens :: nat

record completion_options =
  opt_model :: "jsstring option"
  opt_temperature10 :: "nat option"
  opt_maxTokens :: "nat option"

type_synonym completion_provider = "completion_request \<Rightarrow> response http_outcome"

definition completionRequest :: "content \<Rightarrow> completion_options \<Rightarrow> completion_request" where
  "completionRequest c options =
     \<lparr>req_model = orDefault (opt_model options) MODEL_ANALYSIS,
      req_content = c,
      req_temperature10 = (case opt_temperature10 options of None \<Rightarrow> 7 | Some t \<Rightarrow> t),
      req_max_tokens = (case opt_maxTokens options of None \<Rightarrow> 2048 | Some n \<Rightarrow> n)\<rparr>"

text \<open>The text of a response: \<open>data.choices[0]?.message?.content\<close> when it is a string, the
  \<open>text\<close> of its first text part when it is an array, and the empty string otherwise.\<close>

definition responseText :: "response \<Rightarrow> jsstring" where
  "responseText data =
     (case choices data of
        [] \<Rightarrow> []
      | m # _ \<Rightarrow>
          (case msg_content m of
             ContentText s \<Rightarrow> s
           | ContentParts ps \<Rightarrow>
               (case find isTextPart ps of
                  None \<Rightarrow> []
                | Some textPart \<Rightarrow> orDefault (part_text textPart) [])
           | ContentMissing \<Rightarrow> []))"

definition textCompletion ::
  "jsstring option \<Rightarrow> completion_provider \<Rightarrow> content \<Rightarrow> completion_options
     \<Rightarrow> (error + jsstring) \<times> completion_request list" where
  "textCompletion apiKey provider c options =
     (if \<not> truthy apiKey then (Inl ConfigurationError, [])
      else
        (case provider (completionRequest c options) of
           HttpThrows \<Rightarrow> Inl NetworkError
         | HttpError status body \<Rightarrow> Inl (ProviderError status body)
         | HttpOk data \<Rightarrow> Inr (responseText data),
         [completionRequest c options]))"

subsection \<open>generateImage\<close>

record image_options =
  img_model :: "jsstring option"
  img_referenceImageBase64 :: "jsstring option"
  img_aspectRatio :: "jsstring option"
  img_imageSize :: "jsstring option"

record image_request =
  ireq_model :: jsstring
  ireq_content :: "content_part list"
  ireq_aspect_ratio :: "jsstring option"
  ireq_image_size :: "jsstring option"
  ireq_provider_google :: bool

record image_result =
  imageBase64 :: jsstring
  revisedPrompt :: "jsstring option"

type_synonym image_provider = "image_request \<Rightarrow> response http_outcome"

text \<open>The request body: the prompt as a text part, after the reference image when one is
  given; \<open>image_config\<close> and the provider order for models whose name includes "gemini".\<close>

definition imageRequest :: "jsstring \<Rightarrow> image_options \<Rightarrow> image_request" where
  "imageRequest prompt options =
     (let model = orDefault (img_model options) MODEL_IMAGE_FLASH;
          isGemini = sublist (lit ''gemini'') model
      in \<lparr>ireq_model = model,
          ireq_content =
            (if truthy (img_referenceImageBase64 options)
             then [\<lparr>part_type = lit ''image_url'', part_text = None,
                    part_url = Some (lit ''data:image/jpeg;base64,''
                                       @ orDefault (img_referenceImageBase64 options) [])\<rparr>]
             else [])
            @ [\<lparr>part_type = lit ''text'', part_text = Some prompt, part_url = None\<rparr>],
          ireq_aspect_ratio =
            (if isGemini then Some (orDefault (img_aspectRatio options) (lit ''16:9'')) else None),
          ireq_image_size =
            (if isGemini \<and> truthy (img_imageSize options) then img_imageSize options else None),
          ireq_provider_google = isGemini\<rparr>)"

text \<open>\<open>url.replace(/^data:image\/\w+;base64,/, "")\<close>: the anchored prefix is cut when the
  URL starts with \<open>data:image/\<close>, one or more word characters and \<open>;base64,\<close>.\<close>

definition stripDataUrl :: "jsstring \<Rightarrow> jsstring" where
  "stripDataUrl url =
     (if prefix (lit ''data:image/'') url
      then (let rest = drop 11 url; w = takeWhile isWord rest; rest' = dropWhile isWord rest
            in if w \<noteq> [] \<and> prefix (lit '';base64,'') rest' then drop 8 rest' else url)
      else url)"

text \<open>The text of a message for Method 1: the string content, or the \<open>text\<close> of the first
  text part.\<close>

definition textContent :: "content \<Rightarrow> jsstring option" where
  "textContent c =
     (case c of
        ContentText s \<Rightarrow> Some s
      | ContentParts ps \<Rightarrow> (case find isTextPart ps of None \<Rightarrow> None | Some p \<Rightarrow> part_text p)
      | ContentMissing \<Rightarrow> None)"

text \<open>\<open>message.images[0].image_url?.url\<close> behind the guard
  \<open>message.images && message.images.length > 0\<close>.\<close>

definition firstImageUrl :: "message \<Rightarrow> jsstring option" where
  "firstImageUrl m = (case msg_images m of Some (img # _) \<Rightarrow> img | _ \<Rightarrow> None)"

text \<open>Method 2: the first \<open>image_url\<close> part with a URL in a content array.\<close>

definition inlineImage :: "content \<Rightarrow> error + image_result" where
  "inlineImage c =
     (case c of
        ContentParts ps \<Rightarrow>
          (case find isImagePart ps of
             Some imagePart \<Rightarrow>
               Inr \<lparr>imageBase64 = stripDataUrl (orDefault (part_url imagePart) []),
                    revisedPrompt =
                      (case find isTextPart ps of None \<Rightarrow> None | Some textPart \<Rightarrow> part_text textPart)\<rparr>
           | None \<Rightarrow> Inl NoImageReturned)
      | _ \<Rightarrow> Inl NoImageReturned)"

text \<open>\<open>generateImage\<close> as in the current provider client (both response shapes).\<close>

definition generateImage ::
  "jsstring option \<Rightarrow> image_provider \<Rightarrow> jsstring \<Rightarrow> image_options \<Rightarrow> error + image_result" where
  "generateImage apiKey provider prompt options =
     (if \<not> truthy apiKey then Inl ConfigurationError
      else
        (case provider (imageRequest prompt options) of
           HttpThrows \<Rightarrow> Inl NetworkError
         | HttpError status body \<Rightarrow> Inl (ProviderError status body)
         | HttpOk data \<Rightarrow>
             (case choices data of
                [] \<Rightarrow> Inl NoMessageInResponse
              | m # _ \<Rightarrow>
                  if truthy (firstImageUrl m)
                  then Inr \<lparr>imageBase64 = stripDataUrl (orDefault (firstImageUrl m) []),
                            revisedPrompt =
                              (if truthy (textContent (msg_content m))
                               then textContent (msg_content m) else None)\<rparr>
                  else inlineImage (msg_content m))))"

text \<open>
  \<open>generateImage\<close> of the earlier revision of the client (\<open>src/lib/openrouter.ts\<close>): it
  reads \<open>data.choices[0]?.message?.content\<close> only, so it knows the inline shape alone and
  has no error of its own for a missing message. Its request carries no \<open>image_config\<close>,
  and the provider order is keyed on the model option as given.
\<close>

text \<open>\<open>MODELS.IMAGE_FLASH\<close> as that revision has it.\<close>

definition MODEL_IMAGE_FLASH_LEGACY :: jsstring where
  "MODEL_IMAGE_FLASH_LEGACY = lit ''google/gemini-2.5-flash-image-preview''"

definition imageRequestLegacy :: "jsstring \<Rightarrow> image_options \<Rightarrow> image_request" where
  "imageRequestLegacy prompt options =
     \<lparr>ireq_model = orDefault (img_model options) MODEL_IMAGE_FLASH_LEGACY,
      ireq_content =
        (if truthy (img_referenceImageBase64 options)
         then [\<lparr>part_type = lit ''image_url'', part_text = None,
                part_url = Some (lit ''data:image/jpeg;base64,''
                                   @ orDefault (img_referenceImageBase64 options) [])\<rparr>]
         else [])
        @ [\<lparr>part_type = lit ''text'', part_text = Some prompt, part_url = None\<rparr>],
      ireq_aspect_ratio = None,
      ireq_image_size = None,
      ireq_provider_google =
        (case img_model options of None \<Rightarrow> False | Some model \<Rightarrow> sublist (lit ''gemini'') model)\<rparr>"

definition generateImageLegacy ::
  "jsstring option \<Rightarrow> image_provider \<Rightarrow> jsstring \<Rightarrow> image_options \<Rightarrow> error + image_result" where
  "generateImageLegacy apiKey provider prompt options =
     (if \<not> truthy apiKey then Inl ConfigurationError
      else
        (case provider (imageRequestLegacy prompt options) of
           HttpThrows \<Rightarrow> Inl NetworkError
         | HttpError status body \<Rightarrow> Inl (ProviderError status body)
         | HttpOk data \<Rightarrow>
             (case choices data of
                [] \<Rightarrow> Inl NoImageReturned
              | m # _ \<Rightarrow> inlineImage (msg_content m))))"

text \<open>Example values: no options, a response whose message carries an image in the
  \<open>images\<close> array and an empty string content, one whose content array carries a text
  part and an inline image, one with a text only, and one without any choice.\<close>

definition noImageOptions :: image_options where
  "noImageOptions =
     \<lparr>img_model = None, img_referenceImageBase64 = None, img_aspectRatio = None,
      img_imageSize = None\<rparr>"

definition sideChannelResponse :: response where
  "sideChannelResponse =
     \<lparr>choices = [\<lparr>msg_content = ContentText [],
                   msg_images = Some [Some (lit ''data:image/png;base64,AAAA'')]\<rparr>]\<rparr>"

definition inlineParts :: "content_part list" where
  "inlineParts =
     [\<lparr>part_type = lit ''text'', part_text = Some (lit ''a red fox''), part_url = None\<rparr>,
      \<lparr>part_type = lit ''image_url'', part_text = None,
       part_url = Some (lit ''data:image/jpeg;base64,BBBB'')\<rparr>]"

definition inlineResponse :: response where
  "inlineResponse = \<lparr>choices = [\<lparr>msg_content = ContentParts inlineParts, msg_images = None\<rparr>]\<rparr>"

definition textOnlyResponse :: response where
  "textOnlyResponse =
     \<lparr>choices = [\<lparr>msg_content = ContentText (lit ''I cannot draw that''), msg_images = None\<rparr>]\<rparr>"

definition emptyResponse :: response where
  "emptyResponse = \<lparr>choices = []\<rparr>"

section \<open>The thumbnail generator\<close>

text \<open>
  The data of \<open>video-analyzer.ts\<close> and \<open>thumbnail-generator.ts\<close>. The field \<open>mood\<close> of a
  \<open>VideoAnalysis\<close> is \<open>videoMood\<close> here, and the fields \<open>id\<close>, \<open>imageBase64\<close> and
  \<open>textOverlay\<close> of a \<open>GeneratedThumbnail\<close> carry the prefix \<open>thumb\<close>, since a field name
  is declared once.
\<close>

record ThumbnailConcept =
  description :: jsstring
  textOverlay :: jsstring
  mood :: jsstring
  visualStyle :: jsstring
  faceExpression :: jsstring

record VideoAnalysis =
  title :: jsstring
  topic :: jsstring
  hook :: jsstring
  videoMood :: jsstring
  keyMoments :: "jsstring list"
  visualElements :: "jsstring list"
  textSuggestions :: "jsstring list"
  colorPalette :: "jsstring list"
  targetEmotion :: jsstring
  thumbnailConcepts :: "ThumbnailConcept list"

record GeneratedThumbnail =
  thumbId :: jsstring
  thumbImageBase64 :: jsstring
  concept :: ThumbnailConcept
  thumbTextOverlay :: jsstring
  width :: nat
  height :: nat

text \<open>The options of \<open>generateThumbnails\<close>. The count is a JavaScript number; the model
  reads it as an integer (\<open>slice\<close> truncates a fraction towards zero).\<close>

record thumbnail_options =
  faceImageBase64 :: "jsstring option"
  faceDescription :: "jsstring option"
  model :: "jsstring option"
  count :: "int option"

text \<open>The decimal digits of a number, as a template literal prints it.\<close>

function showNat :: "nat \<Rightarrow> jsstring" where
  "showNat n = (if n < 10 then [48 + n] else showNat (n div 10) @ [48 + n mod 10])"
  by pat_completeness auto
termination
  by (relation "measure (\<lambda>n. n)") auto

definition buildImagePrompt ::
  "ThumbnailConcept \<Rightarrow> VideoAnalysis \<Rightarrow> jsstring option \<Rightarrow> jsstring" where
  "buildImagePrompt c analysis faceDesc =
     join [10, 10]
       ([lit ''Generate a professional YouTube thumbnail image at 1280x720 resolution (16:9 aspect ratio).'',
         lit ''Visual style: '' @ visualStyle c @ lit ''.'',
         lit ''Scene: '' @ description c,
         (if truthy faceDesc
          then lit ''The main person in the thumbnail: '' @ orDefault faceDesc []
               @ lit ''. Their expression should be '' @ faceExpression c
               @ lit ''. The person's face should occupy about 30-40% of the frame, positioned on one side with their eyes in the upper third.''
          else lit ''Include a person with a '' @ faceExpression c
               @ lit '' expression. The person's face should occupy about 30-40% of the frame, positioned on one side.''),
         lit ''Mood: '' @ mood c @ lit ''. Use high-contrast colors from this palette: ''
           @ join (lit '', '') (colorPalette analysis) @ lit ''.'',
         lit ''IMPORTANT THUMBNAIL RULES: Single clear focal point. High contrast between subject and background. Bold, attention-grabbing composition. The image should make viewers curious and want to click. Professional YouTube thumbnail quality.'']
        @ (if textOverlay c \<noteq> []
           then [lit ''Include bold text overlay reading \"'' @ textOverlay c
                 @ lit ''\" in large, high-contrast letters with a dark outline/stroke for readability. Position the text prominently but don't cover the person's face. Use Impact or a similar bold sans-serif font style.'']
           else [])
        @ [lit ''DO NOT include: small or unreadable text, cluttered backgrounds, more than 4 words of text, anything in the bottom-right corner (YouTube puts duration badge there).''])"

text \<open>\<open>xs.slice(0, k)\<close> for an integer \<open>k\<close>: a negative \<open>k\<close> counts from the end.\<close>

definition sliceTo :: "int \<Rightarrow> 'a list \<Rightarrow> 'a list" where
  "sliceTo k xs = (if k < 0 then take (nat (int (length xs) + k)) xs else take (nat k) xs)"

text \<open>\<open>Math.min(options.count || 4, analysis.thumbnailConcepts.length)\<close> and the slice.\<close>

definition effectiveCount :: "thumbnail_options \<Rightarrow> VideoAnalysis \<Rightarrow> int" where
  "effectiveCount options analysis =
     min (case count options of None \<Rightarrow> 4 | Some c \<Rightarrow> if c = 0 then 4 else c)
         (int (length (thumbnailConcepts analysis)))"

definition selectedConcepts :: "thumbnail_options \<Rightarrow> VideoAnalysis \<Rightarrow> ThumbnailConcept list" where
  "selectedConcepts options analysis =
     sliceTo (effectiveCount options analysis) (thumbnailConcepts analysis)"

text \<open>
  The world of \<open>generateThumbnails\<close>: the API key of the environment, the provider's
  answer to the request of each iteration, and the clock read by \<open>Date.now()\<close> in each
  iteration.
\<close>

record thumbnail_world =
  envApiKey :: "jsstring option"
  imageProvider :: "nat \<Rightarrow> image_provider"
  dateNow :: "nat \<Rightarrow> nat"

text \<open>The call of \<open>generateImage\<close> in iteration \<open>i\<close> for concept \<open>c\<close>, and the thumbnail
  pushed when it returns.\<close>

definition generateFor ::
  "thumbnail_world \<Rightarrow> VideoAnalysis \<Rightarrow> thumbnail_options \<Rightarrow> nat \<Rightarrow> ThumbnailConcept
     \<Rightarrow> error + image_result" where
  "generateFor world analysis options i c =
     generateImage (envApiKey world) (imageProvider world i)
       (buildImagePrompt c analysis (faceDescription options))
       \<lparr>img_model = Some (orDefault (model options) MODEL_IMAGE_FLASH),
        img_referenceImageBase64 = faceImageBase64 options,
        img_aspectRatio = None, img_imageSize = None\<rparr>"

definition thumbnailOf ::
  "thumbnail_world \<Rightarrow> nat \<Rightarrow> ThumbnailConcept \<Rightarrow> image_result \<Rightarrow> GeneratedThumbnail" where
  "thumbnailOf world i c r =
     \<lparr>thumbId = lit ''thumb-'' @ showNat (dateNow world i) @ lit ''-'' @ showNat i,
      thumbImageBase64 = imageBase64 r,
      concept = c\<lparr>description := orDefault (revisedPrompt r) (description c)\<rparr>,
      thumbTextOverlay = textOverlay c,
      width = 1280,
      height = 720\<rparr>"

text \<open>
  The \<open>for\<close> loop from index \<open>i\<close> over the concepts still to come: the thumbnails pushed,
  in order, and the indices at which \<open>generateImage\<close> was called. A failure is caught
  and the loop goes on.
\<close>

fun generateLoop ::
  "thumbnail_world \<Rightarrow> VideoAnalysis \<Rightarrow> thumbnail_options \<Rightarrow> nat \<Rightarrow> ThumbnailConcept list
     \<Rightarrow> GeneratedThumbnail list \<times> nat list" where
  "generateLoop world analysis options i [] = ([], [])"
| "generateLoop world analysis options i (c # cs) =
     (let (results, attempts) = generateLoop world analysis options (Suc i) cs
      in case generateFor world analysis options i c of
           Inr r \<Rightarrow> (thumbnailOf world i c r # results, i # attempts)
         | Inl e \<Rightarrow> (results, i # attempts))"

definition generateThumbnails ::
  "thumbnail_world \<Rightarrow> VideoAnalysis \<Rightarrow> thumbnail_options
     \<Rightarrow> (error + GeneratedThumbnail list) \<times> nat list" where
  "generateThumbnails world analysis options =
     (let concepts = selectedConcepts options analysis;
          (results, attempts) = generateLoop world analysis options 0 concepts
      in (if length results = 0 then Inl NoThumbnailsGenerated else Inr results, attempts))"

text \<open>
  In the words of the specification: the outcome of the generation for the \<open>i\<close>-th of the
  concepts \<open>cs\<close> (the thumbnail when it succeeds, \<open>None\<close> when it fails), and the successful
  items in concept order.
\<close>

definition outcomeAt ::
  "thumbnail_world \<Rightarrow> VideoAnalysis \<Rightarrow> thumbnail_options \<Rightarrow> ThumbnailConcept list \<Rightarrow> nat
     \<Rightarrow> GeneratedThumbnail option" where
  "outcomeAt world analysis options cs i =
     (case generateFor world analysis options i (cs ! i) of
        Inr r \<Rightarrow> Some (thumbnailOf world i (cs ! i) r)
      | Inl e \<Rightarrow> None)"

definition successfulItems ::
  "thumbnail_world \<Rightarrow> VideoAnalysis \<Rightarrow> thumbnail_options \<Rightarrow> ThumbnailConcept list
     \<Rightarrow> GeneratedThumbnail list" where
  "successfulItems world analysis options cs =
     List.map_filter (outcomeAt world analysis options cs) [0..<length cs]"

text \<open>
  Example values: an analysis with four concepts, the empty options, and three worlds:
  one in which every generation succeeds, one in which the third generation (index 2)
  is answered with status 500, and one in which every call of the provider rejects.
\<close>

definition exampleConcept :: "jsstring \<Rightarrow> ThumbnailConcept" where
  "exampleConcept d =
     \<lparr>description = d, textOverlay = lit ''WOW'', mood = lit ''exciting'',
      visualStyle = lit ''bold'', faceExpression = lit ''shocked''\<rparr>"

definition fourConcepts :: VideoAnalysis where
  "fourConcepts =
     \<lparr>title = lit ''A video'', topic = lit ''cooking'', hook = lit ''a hook'',
      videoMood = lit ''funny'', keyMoments = [], visualElements = [], textSuggestions = [],
      colorPalette = [lit ''#ff0000'', lit ''#00ff00''], targetEmotion = lit ''joy'',
      thumbnailConcepts =
        [exampleConcept (lit ''scene 1''), exampleConcept (lit ''scene 2''),
         exampleConcept (lit ''scene 3''), exampleConcept (lit ''scene 4'')]\<rparr>"

definition noThumbnailOptions :: thumbnail_options where
  "noThumbnailOptions =
     \<lparr>faceImageBase64 = None, faceDescription = None, model = None, count = None\<rparr>"

definition okWorld :: thumbnail_world where
  "okWorld =
     \<lparr>envApiKey = Some (lit ''sk-test''),
      imageProvider = (\<lambda>i request. HttpOk sideChannelResponse),
      dateNow = (\<lambda>i. 1700000000000 + i)\<rparr>"

definition thirdFailsWorld :: thumbnail_world where
  "thirdFailsWorld =
     \<lparr>envApiKey = Some (lit ''sk-test''),
      imageProvider =
        (\<lambda>i request. if i = 2 then HttpError 500 (lit ''overloaded'')
                      else HttpOk sideChannelResponse),
      dateNow = (\<lambda>i. 1700000000000 + i)\<rparr>"

definition allFailWorld :: thumbnail_world where
  "allFailWorld =
     \<lparr>envApiKey = Some (lit ''sk-test''),
      imageProvider = (\<lambda>i request. HttpThrows),
      dateNow = (\<lambda>i. 1700000000000 + i)\<rparr>"
section \<open>Video and face analysis\<close>

text \<open>
  What \<open>JSON.parse\<close> returns and what a property read on it gives. A number is read only
  for whether it is zero, so its integer part stands for it. The fields of an object are
  its own properties, each key once. \<open>JUndefined\<close> is what reading a property that is not
  there gives.
\<close>

datatype json =
    JUndefined
  | JNull
  | JBool bool
  | JNum int
  | JStr jsstring
  | JArr "json list"
  | JObj "(jsstring \<times> json) list"

text \<open>\<open>!!v\<close>\<close>

fun jsTruthy :: "json \<Rightarrow> bool" where
  "jsTruthy JUndefined = False"
| "jsTruthy JNull = False"
| "jsTruthy (JBool b) = b"
| "jsTruthy (JNum n) = (n \<noteq> 0)"
| "jsTruthy (JStr s) = (s \<noteq> [])"
| "jsTruthy (JArr xs) = True"
| "jsTruthy (JObj kvs) = True"

text \<open>\<open>a || d\<close>\<close>

definition orJson :: "json \<Rightarrow> json \<Rightarrow> json" where
  "orJson a d = (if jsTruthy a then a else d)"

text \<open>
  \<open>parsed.key\<close> for one of the keys \<open>description\<close>, \<open>keyFeatures\<close>, \<open>ageRange\<close> and
  \<open>genderPresentation\<close>: a TypeError (\<open>None\<close>) on \<open>null\<close> and \<open>undefined\<close>, the property of an
  object, and \<open>undefined\<close> on every other value, whose prototype has no such property.
\<close>

fun getProp :: "json \<Rightarrow> jsstring \<Rightarrow> json option" where
  "getProp JUndefined k = None"
| "getProp JNull k = None"
| "getProp (JObj kvs) k = Some (case map_of kvs k of None \<Rightarrow> JUndefined | Some v \<Rightarrow> v)"
| "getProp (JBool b) k = Some JUndefined"
| "getProp (JNum n) k = Some JUndefined"
| "getProp (JStr s) k = Some JUndefined"
| "getProp (JArr xs) k = Some JUndefined"

text \<open>
  The world of an analysis: the API key of the environment, the provider's answer to a
  completion request, and \<open>JSON.parse\<close> (\<open>None\<close>: it throws a SyntaxError).
\<close>

record completion_world =
  worldApiKey :: "jsstring option"
  completionProvider :: completion_provider
  jsonParse :: "jsstring \<Rightarrow> json option"

subsection \<open>analyzeVideo\<close>

text \<open>The oEmbed body, read at \<open>title\<close> and \<open>author_name\<close>, and the metadata made of it.\<close>

record oembed =
  oembed_title :: "jsstring option"
  oembed_author_name :: "jsstring option"

record video_metadata =
  meta_title :: jsstring
  meta_author :: jsstring

definition getVideoMetadata ::
  "(jsstring \<Rightarrow> oembed fetch_outcome) \<Rightarrow> jsstring \<Rightarrow> video_metadata" where
  "getVideoMetadata fetchOembed youtubeUrl =
     (case fetchOembed youtubeUrl of
        FetchOk data \<Rightarrow>
          \<lparr>meta_title = orDefault (oembed_title data) [],
           meta_author = orDefault (oembed_author_name data) []\<rparr>
      | _ \<Rightarrow> \<lparr>meta_title = [], meta_author = []\<rparr>)"

text \<open>\<open>extractTranscript(youtubeUrl).catch(() => "")\<close>\<close>

definition resolvedTranscript :: "transcript_env \<Rightarrow> jsstring \<Rightarrow> jsstring" where
  "resolvedTranscript env youtubeUrl =
     (case fst (extractTranscript env youtubeUrl) of Inl e \<Rightarrow> [] | Inr t \<Rightarrow> t)"

definition analysisPrompt :: "video_metadata \<Rightarrow> jsstring \<Rightarrow> jsstring" where
  "analysisPrompt metadata transcript =
     join [10]
       [lit ''You are a YouTube thumbnail expert. Analyze this video content and generate thumbnail concepts.'',
        [],
        lit ''VIDEO TITLE: '' @ orDefault (Some (meta_title metadata)) (lit ''Unknown''),
        lit ''CHANNEL: '' @ orDefault (Some (meta_author metadata)) (lit ''Unknown''),
        lit ''TRANSCRIPT (first 3000 chars): '' @ take 3000 transcript,
        [],
        lit ''Based on this content, provide a JSON response with the following structure:'',
        lit ''{'',
        lit ''  \"title\": \"video title\",'',
        lit ''  \"topic\": \"main topic in 2-3 words\",'',
        lit ''  \"hook\": \"the main hook/value proposition of the video in one sentence\",'',
        lit ''  \"mood\": \"primary mood (exciting/educational/shocking/funny/inspirational/dramatic)\",'',
        lit ''  \"keyMoments\": [\"3-5 key moments or topics covered\"],'',
        lit ''  \"visualElements\": [\"5-7 specific visual elements that would work in a thumbnail\"],'',
        lit ''  \"textSuggestions\": [\"4-6 short text overlays (1-4 words each) that would grab attention\"],'',
        lit ''  \"colorPalette\": [\"3-4 hex colors that match the video's mood and topic\"],'',
        lit ''  \"targetEmotion\": \"the emotion the thumbnail should evoke in viewers\",'',
        lit ''  \"thumbnailConcepts\": ['',
        lit ''    {'',
        lit ''      \"description\": \"detailed description of the thumbnail scene/composition\",'',
        lit ''      \"textOverlay\": \"the text to show on the thumbnail (1-4 words)\",'',
        lit ''      \"mood\": \"mood of this specific concept\",'',
        lit ''      \"visualStyle\": \"style description (cinematic/cartoon/minimalist/bold/etc)\",'',
        lit ''      \"faceExpression\": \"what expression the person should have (shocked/excited/curious/etc)\"'',
        lit ''    }'',
        lit ''  ]'',
        lit ''}'',
        [],
        lit ''Generate exactly 4 thumbnail concepts. Each should be distinctly different in approach.'',
        lit ''Focus on what would get HIGH CLICK-THROUGH RATES based on proven YouTube thumbnail principles:'',
        lit ''- Strong facial expressions (30-50% of frame)'',
        lit ''- High contrast colors'',
        lit ''- Minimal but impactful text'',
        lit ''- Curiosity gap'',
        lit ''- Clear focal point'',
        [],
        lit ''Return ONLY valid JSON, no markdown or explanation.'']"

text \<open>The three backticks of a markdown fence; \<open>/```json\n?/g\<close> and \<open>/```\n?/g\<close> are removed
  and the rest is trimmed.\<close>

definition fence :: jsstring where
  "fence = [96, 96, 96]"

definition cleanedAnalysis :: "jsstring \<Rightarrow> jsstring" where
  "cleanedAnalysis result =
     trim (replaceAll (reThenOpt (map isChar fence) (isChar 10)) []
            (replaceAll (reThenOpt (map isChar (fence @ lit ''json'')) (isChar 10)) [] result))"

text \<open>The options of the completion call: \<open>{ temperature: 0.8, maxTokens: 2048 }\<close>.\<close>

definition analysisOptions :: completion_options where
  "analysisOptions = \<lparr>opt_model = None, opt_temperature10 = Some 8, opt_maxTokens = Some 2048\<rparr>"

text \<open>
  \<open>analyzeVideo\<close>: the result (the error thrown, or the parsed value, which the code
  returns as a \<open>VideoAnalysis\<close> without a check) and the completion requests sent.
\<close>

definition analyzeVideo ::
  "transcript_env \<Rightarrow> (jsstring \<Rightarrow> oembed fetch_outcome) \<Rightarrow> completion_world \<Rightarrow> jsstring
     \<Rightarrow> (error + json) \<times> completion_request list" where
  "analyzeVideo env fetchOembed world youtubeUrl =
     (let transcript = resolvedTranscript env youtubeUrl;
          metadata = getVideoMetadata fetchOembed youtubeUrl
      in if transcript = [] \<and> meta_title metadata = []
         then (Inl NoContentAvailable, [])
         else
           (case textCompletion (worldApiKey world) (completionProvider world)
                   (ContentText (analysisPrompt metadata transcript)) analysisOptions of
              (Inl e, requests) \<Rightarrow> (Inl e, requests)
            | (Inr result, requests) \<Rightarrow>
                (case jsonParse world (cleanedAnalysis result) of
                   None \<Rightarrow> (Inl AnalysisParseError, requests)
                 | Some v \<Rightarrow> (Inr v, requests))))"

subsection \<open>analyzeFace\<close>

record FaceAnalysis =
  face_description :: json
  face_keyFeatures :: json
  face_ageRange :: json
  face_genderPresentation :: json
  face_photoCount :: nat

definition photoCountText :: "nat \<Rightarrow> jsstring" where
  "photoCountText n =
     (if n = 1 then lit ''this photo''
      else lit ''these '' @ showNat n
           @ lit '' photos (they are all the same person from different angles/conditions)'')"

definition facePrompt :: "nat \<Rightarrow> jsstring" where
  "facePrompt n =
     join [10]
       [lit ''Analyze '' @ photoCountText n @ lit '' of a person and provide a detailed physical description that could be used to accurately reproduce their appearance in AI-generated images.'',
        [],
        lit ''Focus on PERMANENT, DISTINCTIVE features '' @ [8212] @ lit '' the things that make this specific person recognizable:'',
        [],
        lit ''1. **Face shape** '' @ [8212] @ lit '' oval, round, square, heart-shaped, etc.'',
        lit ''2. **Skin tone** '' @ [8212] @ lit '' be specific (light, medium, olive, brown, dark brown, etc.)'',
        lit ''3. **Hair** '' @ [8212] @ lit '' color, length, style, texture (curly, straight, wavy), hairline'',
        lit ''4. **Eyes** '' @ [8212] @ lit '' color, shape, size, spacing'',
        lit ''5. **Nose** '' @ [8212] @ lit '' shape, size, bridge width'',
        lit ''6. **Mouth/lips** '' @ [8212] @ lit '' shape, fullness'',
        lit ''7. **Facial hair** '' @ [8212] @ lit '' beard, mustache, stubble, clean-shaven'',
        lit ''8. **Distinguishing features** '' @ [8212] @ lit '' glasses, moles, dimples, scars, freckles, wrinkles'',
        lit ''9. **Build** '' @ [8212] @ lit '' what's visible of their body type (shoulders, neck)'',
        lit ''10. **Estimated age range**'',
        lit ''11. **Gender presentation**'',
        [],
        lit ''Respond in this exact JSON format:'',
        lit ''{'',
        lit ''  \"description\": \"A [age-range] [gender-presentation] with [comprehensive physical description in one detailed paragraph, suitable for an image generation prompt]\",'',
        lit ''  \"keyFeatures\": [\"feature1\", \"feature2\", \"feature3\", \"feature4\", \"feature5\"],'',
        lit ''  \"ageRange\": \"e.g., early 30s\",'',
        lit ''  \"genderPresentation\": \"e.g., male\"'',
        lit ''}'',
        [],
        lit ''The \"description\" should be a single flowing paragraph that reads naturally as part of an image generation prompt. Be specific enough that the generated image would be recognizably this person. The \"keyFeatures\" should list the 5 most distinctive/recognizable features in order of importance.'',
        [],
        lit ''Return ONLY valid JSON, no markdown fences.'']"

text \<open>The content of the message: one \<open>image_url\<close> part per photo, then the prompt.\<close>

definition faceContent :: "jsstring list \<Rightarrow> content_part list" where
  "faceContent faceImagesBase64 =
     map (\<lambda>img. \<lparr>part_type = lit ''image_url'', part_text = None,
                  part_url = Some (lit ''data:image/jpeg;base64,'' @ img)\<rparr>) faceImagesBase64
     @ [\<lparr>part_type = lit ''text'', part_text = Some (facePrompt (length faceImagesBase64)),
         part_url = None\<rparr>]"

text \<open>\<open>/```json\s*/g\<close> and \<open>/```\s*/g\<close> are removed and the rest is trimmed.\<close>

definition cleanedFace :: "jsstring \<Rightarrow> jsstring" where
  "cleanedFace response =
     trim (replaceAll (reThenStar (map isChar fence) isWhite) []
            (replaceAll (reThenStar (map isChar (fence @ lit ''json'')) isWhite) [] response))"

text \<open>The object of the \<open>catch\<close> block, and the object of the \<open>try\<close> block, which is
  reached when \<open>JSON.parse\<close> returns and \<open>parsed.description\<close> does not throw.\<close>

definition fallbackAnalysis :: "jsstring \<Rightarrow> nat \<Rightarrow> FaceAnalysis" where
  "fallbackAnalysis response n =
     \<lparr>face_description = JStr (trim response),
      face_keyFeatures = JArr [],
      face_ageRange = JStr (lit ''unknown''),
      face_genderPresentation = JStr (lit ''unknown''),
      face_photoCount = n\<rparr>"

definition parsedAnalysis :: "json \<Rightarrow> nat \<Rightarrow> FaceAnalysis option" where
  "parsedAnalysis parsed n =
     (case (getProp parsed (lit ''description''), getProp parsed (lit ''keyFeatures''),
            getProp parsed (lit ''ageRange''), getProp parsed (lit ''genderPresentation'')) of
        (Some d, Some k, Some a, Some g) \<Rightarrow>
          Some \<lparr>face_description = d,
                face_keyFeatures = orJson k (JArr []),
                face_ageRange = orJson a (JStr (lit ''unknown'')),
                face_genderPresentation = orJson g (JStr (lit ''unknown'')),
                face_photoCount = n\<rparr>
      | _ \<Rightarrow> None)"

text \<open>The options of the completion call:
  \<open>{ model: MODELS.ANALYSIS, temperature: 0.3, maxTokens: 1024 }\<close>.\<close>

definition faceOptions :: completion_options where
  "faceOptions =
     \<lparr>opt_model = Some MODEL_ANALYSIS, opt_temperature10 = Some 3, opt_maxTokens = Some 1024\<rparr>"

text \<open>
  \<open>analyzeFace\<close>: the result and the completion requests sent. An error of
  \<open>textCompletion\<close> is outside the \<open>try\<close> block and is thrown on.
\<close>

definition analyzeFace ::
  "completion_world \<Rightarrow> jsstring list \<Rightarrow> (error + FaceAnalysis) \<times> completion_request list" where
  "analyzeFace world faceImagesBase64 =
     (if length faceImagesBase64 = 0 then (Inl InvalidInput, [])
      else
        (case textCompletion (worldApiKey world) (completionProvider world)
                (ContentParts (faceContent faceImagesBase64)) faceOptions of
           (Inl e, requests) \<Rightarrow> (Inl e, requests)
         | (Inr response, requests) \<Rightarrow>
             (Inr (case jsonParse world (cleanedFace response) of
                     None \<Rightarrow> fallbackAnalysis response (length faceImagesBase64)
                   | Some parsed \<Rightarrow>
                       (case parsedAnalysis parsed (length faceImagesBase64) of
                          None \<Rightarrow> fallbackAnalysis response (length faceImagesBase64)
                        | Some analysis \<Rightarrow> analysis)),
              requests)))"

subsection \<open>The face-analyze endpoint\<close>

text \<open>
  The body of the request, read at \<open>faceImages\<close>: \<open>request.json()\<close> rejects or gives \<open>null\<close>
  (the destructuring throws), or the property is falsy (absent, \<open>null\<close>, \<open>0\<close>, an empty
  string, \<open>false\<close>), or a truthy value that is not an array, or an array.
\<close>

datatype face_images = ImagesFalsy | ImagesNotArray | ImagesArray "jsstring list"

datatype request_body = BodyThrows | Body face_images

text \<open>The answer of the endpoint: the status and the payload (an error text of the
  route, the error caught, or the analysis), the argument of every call of \<open>analyzeFace\<close>,
  and the completion requests sent.\<close>

datatype face_payload =
    ErrorText jsstring
  | ThrownError "error option"
  | Analysis FaceAnalysis

record route_outcome =
  httpStatus :: nat
  replyPayload :: face_payload
  analyzerCalls :: "jsstring list list"
  sentRequests :: "completion_request list"

definition POST :: "completion_world \<Rightarrow> request_body \<Rightarrow> route_outcome" where
  "POST world body =
     (case body of
        BodyThrows \<Rightarrow>
          \<lparr>httpStatus = 500, replyPayload = ThrownError None, analyzerCalls = [], sentRequests = []\<rparr>
      | Body ImagesFalsy \<Rightarrow>
          \<lparr>httpStatus = 400,
           replyPayload = ErrorText (lit ''Please provide at least one face image (base64)''),
           analyzerCalls = [], sentRequests = []\<rparr>
      | Body ImagesNotArray \<Rightarrow>
          \<lparr>httpStatus = 400,
           replyPayload = ErrorText (lit ''Please provide at least one face image (base64)''),
           analyzerCalls = [], sentRequests = []\<rparr>
      | Body (ImagesArray faceImages) \<Rightarrow>
          if length faceImages = 0
          then \<lparr>httpStatus = 400,
                replyPayload = ErrorText (lit ''Please provide at least one face image (base64)''),
                analyzerCalls = [], sentRequests = []\<rparr>
          else if length faceImages > 5
          then \<lparr>httpStatus = 400,
                replyPayload = ErrorText (lit ''Maximum 5 reference photos allowed''),
                analyzerCalls = [], sentRequests = []\<rparr>
          else
            (case analyzeFace world faceImages of
               (Inr analysis, requests) \<Rightarrow>
                 \<lparr>httpStatus = 200, replyPayload = Analysis analysis,
                  analyzerCalls = [faceImages], sentRequests = requests\<rparr>
             | (Inl e, requests) \<Rightarrow>
                 \<lparr>httpStatus = 500, replyPayload = ThrownError (Some e),
                  analyzerCalls = [faceImages], sentRequests = requests\<rparr>))"

text \<open>
  Example values: a parser that knows the empty object only, a provider that answers
  every request with the empty object between markdown fences, and one that answers
  with a sentence.
\<close>

definition emptyObjectParse :: "jsstring \<Rightarrow> json option" where
  "emptyObjectParse s = (if s = lit ''{}'' then Some (JObj []) else None)"

definition fencedResponse :: response where
  "fencedResponse =
     \<lparr>choices = [\<lparr>msg_content = ContentText (fence @ lit ''json'' @ [10] @ lit ''{}'' @ [10] @ fence),
                   msg_images = None\<rparr>]\<rparr>"

definition proseResponse :: response where
  "proseResponse =
     \<lparr>choices = [\<lparr>msg_content = ContentText (lit '' A man in his 30s. ''),
                   msg_images = None\<rparr>]\<rparr>"

definition fencedWorld :: completion_world where
  "fencedWorld =
     \<lparr>worldApiKey = Some (lit ''sk-test''),
      completionProvider = (\<lambda>request. HttpOk fencedResponse),
      jsonParse = emptyObjectParse\<rparr>"

definition proseWorld :: completion_world where
  "proseWorld =
     \<lparr>worldApiKey = Some (lit ''sk-test''),
      completionProvider = (\<lambda>request. HttpOk proseResponse),
      jsonParse = emptyObjectParse\<rparr>"

definition titledOembed :: "jsstring \<Rightarrow> oembed fetch_outcome" where
  "titledOembed url =
     FetchOk \<lparr>oembed_title = Some (lit ''A video''), oembed_author_name = None\<rparr>"

definition noOembed :: "jsstring \<Rightarrow> oembed fetch_outcome" where
  "noOembed url = FetchNotOk"

section \<open>Properties of extractVideoId\<close>

lemma lit_length: "length (lit s) = length s"
  by (simp add: lit_def)

lemma matchClasses_append_literal:
  "matchClasses (map isChar p @ cs) s \<longleftrightarrow> prefix p s \<and> matchClasses cs (drop (length p) s)"
proof (induction p arbitrary: s)
  case Nil
  show ?case by simp
next
  case (Cons a p)
  show ?case
  proof (cases s)
    case Nil
    then show ?thesis by simp
  next
    case (Cons x xs)
    with Cons.IH [of xs] show ?thesis by (auto simp: isChar_def)
  qed
qed

lemma matchClasses_replicate:
  "matchClasses (replicate n c) s \<longleftrightarrow> n \<le> length s \<and> list_all c (take n s)"
proof (induction n arbitrary: s)
  case 0
  show ?case by simp
next
  case (Suc n)
  show ?case
  proof (cases s)
    case Nil
    then show ?thesis by simp
  next
    case (Cons x xs)
    with Suc.IH [of xs] show ?thesis by auto
  qed
qed

lemma matchClasses_idPattern:
  "matchClasses (idPattern m) s \<longleftrightarrow>
     prefix (lit m) s \<and> validId (take 11 (drop (length m) s))"
  by (auto simp: idPattern_def literal_def matchClasses_append_literal matchClasses_replicate
      validId_def lit_length)

lemma matchGroup1_shapeIds:
  "matchGroup1 m url = (case shapeIds m url of [] \<Rightarrow> None | v # _ \<Rightarrow> Some v)"
proof (induction url)
  case Nil
  have "\<not> matchClasses (idPattern m) []"
    by (simp add: matchClasses_idPattern validId_def)
  then show ?case by (simp add: matchGroup1_def)
next
  case (Cons x xs)
  then show ?case
    by (simp add: matchGroup1_def matchClasses_idPattern)
qed

lemma firstPattern_shapeIds:
  "firstPattern ms url =
     (case concat (map (\<lambda>m. shapeIds m url) ms) of [] \<Rightarrow> None | v # _ \<Rightarrow> Some v)"
proof (induction ms)
  case Nil
  show ?case by simp
next
  case (Cons m ms)
  show ?case
  proof (cases "shapeIds m url")
    case Nil
    with Cons.IH show ?thesis by (simp add: matchGroup1_shapeIds)
  next
    case (Cons v vs)
    then show ?thesis by (simp add: matchGroup1_shapeIds)
  qed
qed

lemma shapeIds_iff:
  "v \<in> set (shapeIds m url) \<longleftrightarrow>
     (\<exists>pre post. url = pre @ lit m @ v @ post \<and> validId v)"
proof (induction url)
  case Nil
  show ?case by (auto simp: validId_def)
next
  case (Cons x xs)
  show ?case
  proof
    assume "v \<in> set (shapeIds m (x # xs))"
    then consider
        (here) "prefix (lit m) (x # xs)" "validId v" "v = take 11 (drop (length m) (x # xs))"
      | (later) "v \<in> set (shapeIds m xs)"
      by (auto split: if_splits)
    then show "\<exists>pre post. x # xs = pre @ lit m @ v @ post \<and> validId v"
    proof cases
      case here
      from here(1) obtain r where r: "x # xs = lit m @ r"
        by (auto simp: prefix_def)
      with here(3) have "v = take 11 r" by (simp add: lit_length)
      then have "r = v @ drop 11 r" by simp
      with r have "x # xs = [] @ lit m @ v @ drop 11 r" by simp
      with here(2) show ?thesis by blast
    next
      case later
      with Cons.IH obtain pre post where "xs = pre @ lit m @ v @ post" "validId v"
        by blast
      then have "x # xs = (x # pre) @ lit m @ v @ post" by simp
      with \<open>validId v\<close> show ?thesis by blast
    qed
  next
    assume "\<exists>pre post. x # xs = pre @ lit m @ v @ post \<and> validId v"
    then obtain pre post where eq: "x # xs = pre @ lit m @ v @ post" and v: "validId v"
      by blast
    show "v \<in> set (shapeIds m (x # xs))"
    proof (cases pre)
      case Nil
      with eq have p: "prefix (lit m) (x # xs)" by (simp add: prefix_def)
      from v have "length v = 11" by (simp add: validId_def)
      with Nil eq have "take 11 (drop (length m) (x # xs)) = v"
        by (simp add: lit_length)
      with p v show ?thesis by simp
    next
      case (Cons y pre')
      with eq have "xs = pre' @ lit m @ v @ post" by simp
      with v Cons.IH have "v \<in> set (shapeIds m xs)" by blast
      then show ?thesis by simp
    qed
  qed
qed


lemma allShapeIds_iff:
  "v \<in> set (allShapeIds url) \<longleftrightarrow>
     (\<exists>m\<in>set markers. \<exists>pre post. url = pre @ lit m @ v @ post \<and> validId v)"
  by (simp add: allShapeIds_def shapeIds_iff)

lemma extractVideoId_allShapeIds:
  "extractVideoId url = (case allShapeIds url of [] \<Rightarrow> None | v # _ \<Rightarrow> Some v)"
  by (simp add: extractVideoId_def allShapeIds_def firstPattern_shapeIds)

text \<open>
  C2 (amended). \<open>extractVideoId\<close> returns the first entry of \<open>allShapeIds\<close>: the identifier
  at the leftmost occurrence of the first shape, in the order \<open>watch?v=\<close>, \<open>youtu.be/\<close>,
  \<open>embed/\<close>, \<open>shorts/\<close>, that occurs anywhere in the URL, where \<open>allShapeIds\<close> holds
  exactly the identifiers \<open>v\<close> (eleven code units of \<open>[a-zA-Z0-9_-]\<close>) such that the URL
  is \<open>pre @ marker @ v @ post\<close> for one of the four markers. So a URL in which every
  occurrence of a supported shape carries the same identifier \<open>v\<close> yields exactly \<open>v\<close>; and
  a URL in which no shape occurs yields \<open>null\<close>, upon which \<open>extractTranscript\<close> throws
  InvalidInput ("Invalid YouTube URL") before it invokes any transcript source.
\<close>

theorem extractVideoId_shapes:
  "extractVideoId url = (case allShapeIds url of [] \<Rightarrow> None | w # _ \<Rightarrow> Some w)
   \<and> (\<forall>w. w \<in> set (allShapeIds url) \<longleftrightarrow>
          (\<exists>m\<in>set markers. \<exists>pre post. url = pre @ lit m @ w @ post \<and> validId w))
   \<and> ((\<exists>m\<in>set markers. \<exists>pre post. url = pre @ lit m @ v @ post \<and> validId v)
        \<and> (\<forall>m\<in>set markers. \<forall>pre w post. url = pre @ lit m @ w @ post \<and> validId w \<longrightarrow> w = v)
       \<longrightarrow> extractVideoId url = Some v)
   \<and> ((\<forall>m\<in>set markers. \<forall>pre w post. url = pre @ lit m @ w @ post \<longrightarrow> \<not> validId w)
       \<longrightarrow> extractVideoId url = None \<and> extractTranscript env url = (Inl InvalidInput, []))"
proof (intro conjI allI impI)
  show "extractVideoId url = (case allShapeIds url of [] \<Rightarrow> None | w # _ \<Rightarrow> Some w)"
    by (rule extractVideoId_allShapeIds)
next
  fix w
  show "w \<in> set (allShapeIds url) \<longleftrightarrow>
          (\<exists>m\<in>set markers. \<exists>pre post. url = pre @ lit m @ w @ post \<and> validId w)"
    by (rule allShapeIds_iff)
next
  assume h: "(\<exists>m\<in>set markers. \<exists>pre post. url = pre @ lit m @ v @ post \<and> validId v)
     \<and> (\<forall>m\<in>set markers. \<forall>pre w post. url = pre @ lit m @ w @ post \<and> validId w \<longrightarrow> w = v)"
  then have "v \<in> set (allShapeIds url)"
    by (simp add: allShapeIds_iff)
  then obtain w ws where ws: "allShapeIds url = w # ws"
    by (cases "allShapeIds url") auto
  then have "w \<in> set (allShapeIds url)" by simp
  then have "\<exists>m\<in>set markers. \<exists>pre post. url = pre @ lit m @ w @ post \<and> validId w"
    by (simp only: allShapeIds_iff)
  with h have "w = v" by blast
  with ws show "extractVideoId url = Some v"
    by (simp add: extractVideoId_allShapeIds)
next
  assume h: "\<forall>m\<in>set markers. \<forall>pre w post. url = pre @ lit m @ w @ post \<longrightarrow> \<not> validId w"
  have "allShapeIds url = []"
  proof (cases "allShapeIds url")
    case Nil
    then show ?thesis .
  next
    case (Cons w ws)
    then have "w \<in> set (allShapeIds url)" by simp
    then have "\<exists>m\<in>set markers. \<exists>pre post. url = pre @ lit m @ w @ post \<and> validId w"
      by (simp only: allShapeIds_iff)
    with h show ?thesis by blast
  qed
  then show "extractVideoId url = None"
    by (simp add: extractVideoId_allShapeIds)
  then show "extractTranscript env url = (Inl InvalidInput, [])"
    by (simp add: extractTranscript_def)
qed

lemma allShapeIds_youtu_be:
  "allShapeIds (lit ''https://youtu.be/dQw4w9WgXcQ'') = [lit ''dQw4w9WgXcQ'']"
  by (simp add: allShapeIds_def markers_def validId_def lit_def idChar_def)

lemma allShapeIds_example_com:
  "allShapeIds (lit ''https://example.com/watch'') = []"
  by (simp add: allShapeIds_def markers_def validId_def lit_def idChar_def)

theorem extractVideoId_shapes_witness:
  "extractVideoId (lit ''https://youtu.be/dQw4w9WgXcQ'') = Some (lit ''dQw4w9WgXcQ'')
   \<and> extractVideoId (lit ''https://example.com/watch'') = None
   \<and> extractTranscript silentEnv (lit ''https://example.com/watch'') = (Inl InvalidInput, [])"
proof -
  let ?u = "lit ''https://youtu.be/dQw4w9WgXcQ''" and ?v = "lit ''dQw4w9WgXcQ''"
  let ?e = "lit ''https://example.com/watch''"
  have v: "validId ?v"
    by (simp add: validId_def lit_def idChar_def)
  have "''youtu.be/'' \<in> set markers"
    by (simp add: markers_def)
  moreover have "?u = lit ''https://'' @ lit ''youtu.be/'' @ ?v @ []"
    by (simp add: lit_def)
  ultimately have ex: "\<exists>m\<in>set markers. \<exists>pre post. ?u = pre @ lit m @ ?v @ post \<and> validId ?v"
    using v by blast
  have uniq: "\<forall>m\<in>set markers. \<forall>pre w post. ?u = pre @ lit m @ w @ post \<and> validId w \<longrightarrow> w = ?v"
  proof (intro ballI allI impI)
    fix m pre w post
    assume "m \<in> set markers" "?u = pre @ lit m @ w @ post \<and> validId w"
    then have "w \<in> set (allShapeIds ?u)"
      unfolding allShapeIds_iff by blast
    then show "w = ?v" by (simp add: allShapeIds_youtu_be)
  qed
  have none: "\<forall>m\<in>set markers. \<forall>pre w post. ?e = pre @ lit m @ w @ post \<longrightarrow> \<not> validId w"
  proof (intro ballI allI impI)
    fix m pre w post
    assume "m \<in> set markers" "?e = pre @ lit m @ w @ post"
    show "\<not> validId w"
    proof
      assume "validId w"
      with \<open>m \<in> set markers\<close> \<open>?e = pre @ lit m @ w @ post\<close>
      have "w \<in> set (allShapeIds ?e)"
        unfolding allShapeIds_iff by blast
      then show False by (simp add: allShapeIds_example_com)
    qed
  qed
  from extractVideoId_shapes [of ?u ?v silentEnv] ex uniq
  have a: "extractVideoId ?u = Some ?v" by blast
  from extractVideoId_shapes [of ?e ?v silentEnv] none
  have b: "extractVideoId ?e = None \<and> extractTranscript silentEnv ?e = (Inl InvalidInput, [])"
    by blast
  from a b show ?thesis by simp
qed

text \<open>
  C2 as stated fails: the URL below is of the shape \<open>youtu.be/\<close> with the identifier
  \<open>dQw4w9WgXcQ\<close>, and \<open>extractVideoId\<close> returns the identifier of the \<open>watch?v=\<close> shape
  inside its query string, because that pattern is tried first.
\<close>

theorem extractVideoId_counterexample:
  "validId (lit ''dQw4w9WgXcQ'')
   \<and> extractVideoId
        (lit ''https://'' @ lit ''youtu.be/'' @ lit ''dQw4w9WgXcQ''
           @ lit ''?feature=youtube.com/watch?v=AAAAAAAAAAA'')
       = Some (lit ''AAAAAAAAAAA'')
   \<and> lit ''AAAAAAAAAAA'' \<noteq> lit ''dQw4w9WgXcQ''"
  by (simp add: extractVideoId_allShapeIds allShapeIds_def markers_def validId_def lit_def
      idChar_def)

section \<open>Properties of extractTranscript\<close>

lemma cleanTranscript_Nil: "cleanTranscript [] = []"
  by (simp add: cleanTranscript_def removeMusic_def removeMusicTag_def removeNotes_def
      removeBracketNotes_def decodeEntities_def replaceLit_def trim_def)

lemma tryLibrary_yield:
  "tryLibrary env v = (if longText (libYield env v) then libYield env v else None)"
  by (auto simp: tryLibrary_def libYield_def longText_def Let_def cleanTranscript_Nil
      split: lib_outcome.splits option.splits)

lemma tryVtd_yield:
  "tryVtd env u = (if longText (vtdYield env u) then vtdYield env u else None)"
  by (auto simp: tryVtd_def vtdYield_def longText_def Let_def split: vtd_outcome.splits)

lemma tryApi1_yield:
  "tryApi1 env u = (if truthy (api1Yield env u) then api1Yield env u else None)"
  by (auto simp: tryApi1_def api1Yield_def split: fetch_outcome.splits)

lemma tryApi2_long:
  "longText (api2Yield env u) \<Longrightarrow> tryApi2 env u = api2Yield env u"
  by (auto simp: tryApi2_def api2Yield_def longText_def
      split: fetch_outcome.splits option.splits api2_content.splits)

lemma longText_truthy: "longText y \<Longrightarrow> truthy y"
  by (auto simp: longText_def truthy_def split: option.splits)

lemma extractTranscript_trace_prefix:
  "prefix (snd (extractTranscript env url)) [SrcLibrary, SrcVtd, SrcApi1, SrcApi2]"
  by (simp add: extractTranscript_def split: option.splits)

lemma extractTranscript_library_only:
  assumes "extractVideoId url = Some v" and "longText (libYield env v)"
  shows "extractTranscript env url = (Inr (the (libYield env v)), [SrcLibrary])"
  using assms
  by (auto simp: extractTranscript_def tryLibrary_yield longText_def split: option.splits)

lemma extractTranscript_invoked:
  assumes v: "extractVideoId url = Some v"
  shows "(SrcVtd \<in> set (snd (extractTranscript env url)) \<longrightarrow> \<not> longText (libYield env v))
    \<and> (SrcApi1 \<in> set (snd (extractTranscript env url)) \<longrightarrow>
          \<not> longText (libYield env v) \<and> \<not> longText (vtdYield env url))
    \<and> (SrcApi2 \<in> set (snd (extractTranscript env url)) \<longrightarrow>
          \<not> longText (libYield env v) \<and> \<not> longText (vtdYield env url)
          \<and> \<not> longText (api1Yield env url))"
proof (cases "longText (libYield env v)")
  case True
  with v have "snd (extractTranscript env url) = [SrcLibrary]"
    by (simp add: extractTranscript_library_only)
  then show ?thesis by simp
next
  case lib: False
  show ?thesis
  proof (cases "longText (vtdYield env url)")
    case True
    with v lib have "snd (extractTranscript env url) = [SrcLibrary, SrcVtd]"
      by (auto simp: extractTranscript_def tryLibrary_yield tryVtd_yield longText_def
          split: option.splits)
    with lib show ?thesis by simp
  next
    case vtd: False
    show ?thesis
    proof (cases "truthy (api1Yield env url)")
      case True
      with v lib vtd have "snd (extractTranscript env url) = [SrcLibrary, SrcVtd, SrcApi1]"
        by (auto simp: extractTranscript_def tryLibrary_yield tryVtd_yield tryApi1_yield
            truthy_def split: option.splits)
      with lib vtd show ?thesis by simp
    next
      case False
      then have "\<not> longText (api1Yield env url)"
        using longText_truthy by blast
      with lib vtd show ?thesis by simp
    qed
  qed
qed

lemma longText_Some: "longText (Some t) \<longleftrightarrow> 21 \<le> length t"
  by (auto simp: longText_def)

lemma longText_None: "\<not> longText None"
  by (simp add: longText_def)

lemma truthy_Some: "truthy (Some t) \<longleftrightarrow> t \<noteq> []"
  by (simp add: truthy_def)

lemma truthy_None: "\<not> truthy None"
  by (simp add: truthy_def)

lemma tryApi2_Some: "tryApi2 env u = Some t \<Longrightarrow> api2Yield env u = Some t"
  by (auto simp: tryApi2_def api2Yield_def
      split: fetch_outcome.splits option.splits api2_content.splits if_splits)

lemma tryApi2_None: "tryApi2 env u = None \<Longrightarrow> \<not> longText (api2Yield env u)"
  using tryApi2_long [of env u] by (auto simp: longText_None)

lemma extractTranscript_chain:
  assumes "extractVideoId url = Some v"
  shows "extractTranscript env url =
    (if longText (libYield env v) then (Inr (the (libYield env v)), [SrcLibrary])
     else if longText (vtdYield env url) then (Inr (the (vtdYield env url)), [SrcLibrary, SrcVtd])
     else if truthy (api1Yield env url)
       then (Inr (the (api1Yield env url)), [SrcLibrary, SrcVtd, SrcApi1])
     else (case tryApi2 env url of
             Some t \<Rightarrow> (Inr t, [SrcLibrary, SrcVtd, SrcApi1, SrcApi2])
           | None \<Rightarrow> (Inl NoTranscriptAvailable, [SrcLibrary, SrcVtd, SrcApi1, SrcApi2])))"
  using assms
  by (auto simp: extractTranscript_def tryLibrary_yield tryVtd_yield tryApi1_yield
      longText_def truthy_def split: option.splits)

lemma extractTranscript_sound:
  assumes v: "extractVideoId url = Some v" and r: "extractTranscript env url = (Inr t, tr)"
  shows "(tr = [SrcLibrary] \<and> libYield env v = Some t \<and> 21 \<le> length t)
          \<or> (tr = [SrcLibrary, SrcVtd] \<and> vtdYield env url = Some t \<and> 21 \<le> length t)
          \<or> (tr = [SrcLibrary, SrcVtd, SrcApi1] \<and> api1Yield env url = Some t \<and> t \<noteq> [])
          \<or> (tr = [SrcLibrary, SrcVtd, SrcApi1, SrcApi2] \<and> api2Yield env url = Some t)"
proof (cases "longText (libYield env v)")
  case True
  then obtain s where "libYield env v = Some s" "21 \<le> length s"
    by (cases "libYield env v") (auto simp: longText_None longText_Some)
  with r True show ?thesis
    by (simp add: extractTranscript_chain [OF v])
next
  case lib: False
  show ?thesis
  proof (cases "longText (vtdYield env url)")
    case True
    then obtain s where "vtdYield env url = Some s" "21 \<le> length s"
      by (cases "vtdYield env url") (auto simp: longText_None longText_Some)
    with r lib True show ?thesis
      by (simp add: extractTranscript_chain [OF v])
  next
    case vtd: False
    show ?thesis
    proof (cases "truthy (api1Yield env url)")
      case True
      then obtain s where "api1Yield env url = Some s" "s \<noteq> []"
        by (cases "api1Yield env url") (auto simp: truthy_None truthy_Some)
      with r lib vtd True show ?thesis
        by (simp add: extractTranscript_chain [OF v])
    next
      case False
      with r lib vtd have "tryApi2 env url = Some t"
        and "tr = [SrcLibrary, SrcVtd, SrcApi1, SrcApi2]"
        by (auto simp: extractTranscript_chain [OF v] split: option.splits)
      then show ?thesis
        by (simp add: tryApi2_Some)
    qed
  qed
qed


text \<open>
  C1 (amended). For a URL with a video identifier \<open>v\<close>:
  \<^item> the sources invoked are always an initial part of (a), (b), (c), (d), in this order;
  \<^item> if source (a) yields at least 21 code units of cleaned text \<open>t\<close>, the result is \<open>t\<close>, only
    (a) is invoked, and the result is the same whatever (b)-(d) would do;
  \<^item> (b) is invoked only if (a) failed or yielded at most 20 code units, (c) only if that
    holds of (a) and (b), (d) only if it holds of (a), (b) and (c);
  \<^item> (b) is accepted when its trimmed output is longer than 20 code units; (c) is accepted
    as soon as its answer carries a non-empty text, of any length; (d) is reached only
    when (c) carried no text, and is accepted whenever its text is longer than 20;
  \<^item> a text that is returned is the text of the last source invoked, longer than 20 for
    (a) and (b), non-empty for (c);
  \<^item> the only error is NoTranscriptAvailable, after all four were invoked and none
    yielded a text longer than 20 code units.
\<close>

theorem extractTranscript_fallback_order:
  assumes v: "extractVideoId url = Some v"
  shows "prefix (snd (extractTranscript env url)) [SrcLibrary, SrcVtd, SrcApi1, SrcApi2]
    \<and> (libYield env v = Some t \<and> 21 \<le> length t \<longrightarrow>
          extractTranscript env url = (Inr t, [SrcLibrary])
          \<and> (\<forall>env'. fetchTranscript env' = fetchTranscript env \<longrightarrow>
                extractTranscript env' url = (Inr t, [SrcLibrary])))
    \<and> (SrcVtd \<in> set (snd (extractTranscript env url)) \<longrightarrow> \<not> longText (libYield env v))
    \<and> (SrcApi1 \<in> set (snd (extractTranscript env url)) \<longrightarrow>
          \<not> longText (libYield env v) \<and> \<not> longText (vtdYield env url))
    \<and> (SrcApi2 \<in> set (snd (extractTranscript env url)) \<longrightarrow>
          \<not> longText (libYield env v) \<and> \<not> longText (vtdYield env url)
          \<and> \<not> longText (api1Yield env url))
    \<and> (\<not> longText (libYield env v) \<and> vtdYield env url = Some t \<and> 21 \<le> length t \<longrightarrow>
          extractTranscript env url = (Inr t, [SrcLibrary, SrcVtd]))
    \<and> (\<not> longText (libYield env v) \<and> \<not> longText (vtdYield env url)
        \<and> api1Yield env url = Some t \<and> t \<noteq> [] \<longrightarrow>
          extractTranscript env url = (Inr t, [SrcLibrary, SrcVtd, SrcApi1]))
    \<and> (\<not> longText (libYield env v) \<and> \<not> longText (vtdYield env url)
        \<and> \<not> truthy (api1Yield env url) \<and> api2Yield env url = Some t \<and> 21 \<le> length t \<longrightarrow>
          extractTranscript env url = (Inr t, [SrcLibrary, SrcVtd, SrcApi1, SrcApi2]))
    \<and> (extractTranscript env url = (Inr t, tr) \<longrightarrow>
          (tr = [SrcLibrary] \<and> libYield env v = Some t \<and> 21 \<le> length t)
          \<or> (tr = [SrcLibrary, SrcVtd] \<and> vtdYield env url = Some t \<and> 21 \<le> length t)
          \<or> (tr = [SrcLibrary, SrcVtd, SrcApi1] \<and> api1Yield env url = Some t \<and> t \<noteq> [])
          \<or> (tr = [SrcLibrary, SrcVtd, SrcApi1, SrcApi2] \<and> api2Yield env url = Some t))
    \<and> (extractTranscript env url = (Inl e, tr) \<longrightarrow>
          e = NoTranscriptAvailable \<and> tr = [SrcLibrary, SrcVtd, SrcApi1, SrcApi2]
          \<and> \<not> longText (libYield env v) \<and> \<not> longText (vtdYield env url)
          \<and> \<not> truthy (api1Yield env url) \<and> \<not> longText (api2Yield env url))"
proof (intro conjI)
  show "prefix (snd (extractTranscript env url)) [SrcLibrary, SrcVtd, SrcApi1, SrcApi2]"
    by (rule extractTranscript_trace_prefix)
next
  show "libYield env v = Some t \<and> 21 \<le> length t \<longrightarrow>
          extractTranscript env url = (Inr t, [SrcLibrary])
          \<and> (\<forall>env'. fetchTranscript env' = fetchTranscript env \<longrightarrow>
                extractTranscript env' url = (Inr t, [SrcLibrary]))"
  proof (intro impI conjI allI)
    assume h: "libYield env v = Some t \<and> 21 \<le> length t"
    then show "extractTranscript env url = (Inr t, [SrcLibrary])"
      by (simp add: extractTranscript_chain [OF v] longText_Some)
    fix env' :: transcript_env
    assume "fetchTranscript env' = fetchTranscript env"
    then have "libYield env' v = libYield env v"
      by (simp add: libYield_def)
    with h show "extractTranscript env' url = (Inr t, [SrcLibrary])"
      by (simp add: extractTranscript_chain [OF v] longText_Some)
  qed
next
  from extractTranscript_invoked [OF v, of env]
  show "SrcVtd \<in> set (snd (extractTranscript env url)) \<longrightarrow> \<not> longText (libYield env v)"
    by blast
next
  from extractTranscript_invoked [OF v, of env]
  show "SrcApi1 \<in> set (snd (extractTranscript env url)) \<longrightarrow>
          \<not> longText (libYield env v) \<and> \<not> longText (vtdYield env url)"
    by blast
next
  from extractTranscript_invoked [OF v, of env]
  show "SrcApi2 \<in> set (snd (extractTranscript env url)) \<longrightarrow>
          \<not> longText (libYield env v) \<and> \<not> longText (vtdYield env url)
          \<and> \<not> longText (api1Yield env url)"
    by blast
next
  show "\<not> longText (libYield env v) \<and> vtdYield env url = Some t \<and> 21 \<le> length t \<longrightarrow>
          extractTranscript env url = (Inr t, [SrcLibrary, SrcVtd])"
    by (simp add: extractTranscript_chain [OF v] longText_Some)
next
  show "\<not> longText (libYield env v) \<and> \<not> longText (vtdYield env url)
        \<and> api1Yield env url = Some t \<and> t \<noteq> [] \<longrightarrow>
          extractTranscript env url = (Inr t, [SrcLibrary, SrcVtd, SrcApi1])"
    by (simp add: extractTranscript_chain [OF v] truthy_Some)
next
  show "\<not> longText (libYield env v) \<and> \<not> longText (vtdYield env url)
        \<and> \<not> truthy (api1Yield env url) \<and> api2Yield env url = Some t \<and> 21 \<le> length t \<longrightarrow>
          extractTranscript env url = (Inr t, [SrcLibrary, SrcVtd, SrcApi1, SrcApi2])"
  proof
    assume h: "\<not> longText (libYield env v) \<and> \<not> longText (vtdYield env url)
        \<and> \<not> truthy (api1Yield env url) \<and> api2Yield env url = Some t \<and> 21 \<le> length t"
    then have "longText (api2Yield env url)"
      by (simp add: longText_Some)
    then have "tryApi2 env url = api2Yield env url"
      by (rule tryApi2_long)
    with h show "extractTranscript env url = (Inr t, [SrcLibrary, SrcVtd, SrcApi1, SrcApi2])"
      by (simp add: extractTranscript_chain [OF v])
  qed
next
  show "extractTranscript env url = (Inr t, tr) \<longrightarrow>
          (tr = [SrcLibrary] \<and> libYield env v = Some t \<and> 21 \<le> length t)
          \<or> (tr = [SrcLibrary, SrcVtd] \<and> vtdYield env url = Some t \<and> 21 \<le> length t)
          \<or> (tr = [SrcLibrary, SrcVtd, SrcApi1] \<and> api1Yield env url = Some t \<and> t \<noteq> [])
          \<or> (tr = [SrcLibrary, SrcVtd, SrcApi1, SrcApi2] \<and> api2Yield env url = Some t)"
    using extractTranscript_sound [OF v] by blast
next
  show "extractTranscript env url = (Inl e, tr) \<longrightarrow>
          e = NoTranscriptAvailable \<and> tr = [SrcLibrary, SrcVtd, SrcApi1, SrcApi2]
          \<and> \<not> longText (libYield env v) \<and> \<not> longText (vtdYield env url)
          \<and> \<not> truthy (api1Yield env url) \<and> \<not> longText (api2Yield env url)"
  proof
    assume r: "extractTranscript env url = (Inl e, tr)"
    then have c: "\<not> longText (libYield env v)" "\<not> longText (vtdYield env url)"
        "\<not> truthy (api1Yield env url)"
      by (auto simp: extractTranscript_chain [OF v] split: if_splits)
    with r have "tryApi2 env url = None" "e = NoTranscriptAvailable"
        "tr = [SrcLibrary, SrcVtd, SrcApi1, SrcApi2]"
      by (auto simp: extractTranscript_chain [OF v] split: option.splits)
    with c show "e = NoTranscriptAvailable \<and> tr = [SrcLibrary, SrcVtd, SrcApi1, SrcApi2]
          \<and> \<not> longText (libYield env v) \<and> \<not> longText (vtdYield env url)
          \<and> \<not> truthy (api1Yield env url) \<and> \<not> longText (api2Yield env url)"
      by (simp add: tryApi2_None)
  qed
qed

lemma lit_eq_Nil: "lit s = [] \<longleftrightarrow> s = []"
  by (simp add: lit_def)

lemma replicate_3: "replicate 3 x = [x, x, x]"
  by (simp add: numeral_3_eq_3)

lemmas clean_eval = cleanTranscript_def removeMusic_def removeMusicTag_def removeNotes_def
  removeBracketNotes_def bracketNotes_def decodeEntities_def replaceLit_def trim_def
  reClasses_def reWhitePlus_def literal_def literalCI_def lit_def isChar_def isCharCI_def
  upperCu_def musicNote_def isWhite_def replicate_3

lemma extractVideoId_youtu_be:
  "extractVideoId (lit ''https://youtu.be/dQw4w9WgXcQ'') = Some (lit ''dQw4w9WgXcQ'')"
  by (simp add: extractVideoId_allShapeIds allShapeIds_youtu_be)

lemma cleanTranscript_alphabet:
  "cleanTranscript (lit ''abcdefghijklmnopqrstuvwxyz'') = lit ''abcdefghijklmnopqrstuvwxyz''"
  by (simp add: clean_eval)

lemma trim_alphabet:
  "trim (lit ''  abcdefghijklmnopqrstuvwxyz '') = lit ''abcdefghijklmnopqrstuvwxyz''"
  by (simp add: trim_def lit_def isWhite_def)

lemma join_alphabet:
  "join (lit '' '') [lit ''abcdefghijklm'', lit ''nopqrstuvwxyz'']
     = lit ''abcdefghijklm nopqrstuvwxyz''"
  unfolding lit_def by simp

theorem extractTranscript_fallback_order_witness:
  "extractTranscript libraryEnv (lit ''https://youtu.be/dQw4w9WgXcQ'')
     = (Inr (lit ''abcdefghijklmnopqrstuvwxyz''), [SrcLibrary])
   \<and> extractTranscript vtdEnv (lit ''https://youtu.be/dQw4w9WgXcQ'')
     = (Inr (lit ''abcdefghijklmnopqrstuvwxyz''), [SrcLibrary, SrcVtd])
   \<and> extractTranscript shortApi1Env (lit ''https://youtu.be/dQw4w9WgXcQ'')
     = (Inr (lit ''hi''), [SrcLibrary, SrcVtd, SrcApi1])
   \<and> extractTranscript api2Env (lit ''https://youtu.be/dQw4w9WgXcQ'')
     = (Inr (lit ''abcdefghijklm nopqrstuvwxyz''), [SrcLibrary, SrcVtd, SrcApi1, SrcApi2])
   \<and> \<not> longText (api2Yield silentEnv (lit ''https://youtu.be/dQw4w9WgXcQ''))"
proof -
  let ?u = "lit ''https://youtu.be/dQw4w9WgXcQ''" and ?v = "lit ''dQw4w9WgXcQ''"
  let ?az = "lit ''abcdefghijklmnopqrstuvwxyz''"
  let ?all = "[SrcLibrary, SrcVtd, SrcApi1, SrcApi2]"
  note v = extractVideoId_youtu_be
  have az: "21 \<le> length ?az" by (simp add: lit_length)
  have "libYield libraryEnv ?v = Some ?az"
    by (simp add: libYield_def libraryEnv_def cleanTranscript_alphabet)
  with az extractTranscript_fallback_order [OF v, of libraryEnv ?az]
  have a: "extractTranscript libraryEnv ?u = (Inr ?az, [SrcLibrary])"
    by blast
  have "\<not> longText (libYield vtdEnv ?v)"
    by (simp add: libYield_def vtdEnv_def longText_None)
  moreover have "vtdYield vtdEnv ?u = Some ?az"
    by (simp add: vtdYield_def vtdEnv_def trim_alphabet)
  ultimately have b: "extractTranscript vtdEnv ?u = (Inr ?az, [SrcLibrary, SrcVtd])"
    using az extractTranscript_fallback_order [OF v, of vtdEnv ?az] by blast
  have "\<not> longText (libYield shortApi1Env ?v)" "\<not> longText (vtdYield shortApi1Env ?u)"
    by (simp_all add: libYield_def vtdYield_def shortApi1Env_def longText_None)
  moreover have "api1Yield shortApi1Env ?u = Some (lit ''hi'')"
    by (simp add: api1Yield_def shortApi1Env_def orElse_def truthy_Some lit_eq_Nil)
  moreover have "lit ''hi'' \<noteq> []"
    by (simp add: lit_eq_Nil)
  ultimately have c: "extractTranscript shortApi1Env ?u
      = (Inr (lit ''hi''), [SrcLibrary, SrcVtd, SrcApi1])"
    using extractTranscript_fallback_order [OF v, of shortApi1Env "lit ''hi''"] by blast
  let ?j = "lit ''abcdefghijklm nopqrstuvwxyz''"
  have "\<not> longText (libYield api2Env ?v)"
    by (simp add: libYield_def api2Env_def longText_Some cleanTranscript_Nil)
  moreover have "\<not> longText (vtdYield api2Env ?u)"
    by (simp add: vtdYield_def api2Env_def longText_Some trim_def lit_def isWhite_def)
  moreover have "\<not> truthy (api1Yield api2Env ?u)"
    by (simp add: api1Yield_def api2Env_def truthy_None)
  moreover have "api2Yield api2Env ?u = Some ?j"
    by (simp add: api2Yield_def api2Env_def join_alphabet del: join.simps)
  moreover have "21 \<le> length ?j"
    by (simp add: lit_length)
  ultimately have d: "extractTranscript api2Env ?u = (Inr ?j, ?all)"
    using extractTranscript_fallback_order [OF v, of api2Env ?j] by blast
  have "extractTranscript silentEnv ?u = (Inl NoTranscriptAvailable, ?all)"
    by (simp add: extractTranscript_def v silentEnv_def tryLibrary_def tryVtd_def tryApi1_def
        tryApi2_def)
  with extractTranscript_fallback_order [OF v, of silentEnv _ ?all NoTranscriptAvailable]
  have e: "\<not> longText (api2Yield silentEnv ?u)"
    by blast
  from a b c d e show ?thesis by simp
qed

text \<open>
  C1 as stated fails: the chain does not always stop at the first source that produces
  a text longer than 20 code units. Below, sources (a) and (b) fail, source (c) answers
  with the two-character text "hi" and source (d) would deliver 26 characters; the chain
  stops at (c) and returns "hi".
\<close>

theorem extractTranscript_short_text_counterexample:
  "extractTranscript shortApi1Env (lit ''https://youtu.be/dQw4w9WgXcQ'')
     = (Inr (lit ''hi''), [SrcLibrary, SrcVtd, SrcApi1])
   \<and> length (lit ''hi'') \<le> 20
   \<and> api2Yield shortApi1Env (lit ''https://youtu.be/dQw4w9WgXcQ'')
       = Some (lit ''abcdefghijklmnopqrstuvwxyz'')
   \<and> 20 < length (lit ''abcdefghijklmnopqrstuvwxyz'')"
  by (simp add: extractTranscript_def extractVideoId_youtu_be shortApi1Env_def tryLibrary_def
      tryVtd_def tryApi1_def orElse_def truthy_def lit_eq_Nil api2Yield_def lit_length)

section \<open>Properties of global replacement and of the cleaning of transcripts\<close>

lemma matchClasses_reject:
  "\<forall>c\<in>set cs. \<not> c y \<Longrightarrow> matchClasses cs (a @ y # rest) = matchClasses cs a"
proof (induction a arbitrary: cs)
  case Nil
  then show ?case by (cases cs) auto
next
  case (Cons x a)
  then show ?case by (cases cs) auto
qed

lemma matchClasses_left:
  assumes "\<forall>c\<in>set (tl cs). \<not> c y" and "a \<noteq> []"
  shows "matchClasses cs (a @ y # rest) = matchClasses cs a"
proof (cases cs)
  case Nil
  then show ?thesis by simp
next
  case (Cons c cs')
  from assms(2) obtain x a' where a: "a = x # a'" by (cases a) auto
  from assms(1) Cons have "\<forall>c\<in>set cs'. \<not> c y" by simp
  then have "matchClasses cs' (a' @ y # rest) = matchClasses cs' a'"
    by (rule matchClasses_reject)
  with Cons a show ?thesis by simp
qed

lemma matchClasses_length: "matchClasses cs s \<Longrightarrow> length cs \<le> length s"
  by (induction cs s rule: matchClasses.induct) auto

lemma replaceAll_reClasses_Cons:
  "replaceAll (reClasses cs) r (x # xs) =
     (if matchClasses cs (x # xs) \<and> cs \<noteq> []
      then r @ replaceAll (reClasses cs) r (drop (length cs - 1) xs)
      else x # replaceAll (reClasses cs) r xs)"
  by (cases cs) (simp_all add: reClasses_def)

lemma replaceAll_left:
  assumes rej: "\<forall>c\<in>set (tl cs). \<not> c y"
  shows "replaceAll (reClasses cs) r (a @ y # rest)
    = replaceAll (reClasses cs) r a @ replaceAll (reClasses cs) r (y # rest)"
proof (induction a rule: length_induct)
  case (1 a)
  let ?R = "replaceAll (reClasses cs) r"
  show ?case
  proof (cases a)
    case Nil
    then show ?thesis by simp
  next
    case (Cons x a')
    have m: "matchClasses cs (x # a' @ y # rest) = matchClasses cs (x # a')"
      using matchClasses_left [OF rej, of "x # a'" rest] by simp
    show ?thesis
    proof (cases "matchClasses cs (x # a') \<and> cs \<noteq> []")
      case True
      from True have "length cs \<le> length (x # a')" by (auto dest: matchClasses_length)
      then have le: "length cs - 1 \<le> length a'" by simp
      then have "length (drop (length cs - 1) a') < length a" using Cons by simp
      with 1 have ih: "?R (drop (length cs - 1) a' @ y # rest)
         = ?R (drop (length cs - 1) a') @ ?R (y # rest)"
        by blast
      have "?R (a @ y # rest) = r @ ?R (drop (length cs - 1) (a' @ y # rest))"
        using True m Cons replaceAll_reClasses_Cons [of cs r x "a' @ y # rest"] by simp
      also have "drop (length cs - 1) (a' @ y # rest) = drop (length cs - 1) a' @ y # rest"
        using le by simp
      also note ih
      also have "r @ ?R (drop (length cs - 1) a') @ ?R (y # rest) = ?R a @ ?R (y # rest)"
        using True Cons replaceAll_reClasses_Cons [of cs r x a'] by simp
      finally show ?thesis .
    next
      case False
      have "length a' < length a" using Cons by simp
      with 1 have ih: "?R (a' @ y # rest) = ?R a' @ ?R (y # rest)"
        by blast
      have "?R (a @ y # rest) = x # ?R (a' @ y # rest)"
        using False m Cons replaceAll_reClasses_Cons [of cs r x "a' @ y # rest"] by auto
      also note ih
      also have "x # ?R a' @ ?R (y # rest) = ?R a @ ?R (y # rest)"
        using False Cons replaceAll_reClasses_Cons [of cs r x a'] by auto
      finally show ?thesis .
    qed
  qed
qed

lemma matchClasses_append: "matchClasses cs q \<Longrightarrow> matchClasses cs (q @ b)"
  by (induction cs q rule: matchClasses.induct) auto

lemma replaceAll_at_match:
  assumes "matchClasses cs (y # q)" and "length cs = Suc (length q)"
  shows "replaceAll (reClasses cs) r ((y # q) @ b) = r @ replaceAll (reClasses cs) r b"
  using assms matchClasses_append [of cs "y # q" b] replaceAll_reClasses_Cons [of cs r y "q @ b"]
  by auto

lemma replaceAll_occurrence:
  assumes "matchClasses cs (y # q)" and "length cs = Suc (length q)"
    and "\<forall>c\<in>set (tl cs). \<not> c y"
  shows "replaceAll (reClasses cs) r (a @ (y # q) @ b)
    = replaceAll (reClasses cs) r a @ r @ replaceAll (reClasses cs) r b"
  using replaceAll_left [OF assms(3), of r a "q @ b"] replaceAll_at_match [OF assms(1,2), of r b]
  by simp

lemma canStart_match: "matchClasses cs (q @ b) \<Longrightarrow> canStart cs q"
  by (induction cs q rule: canStart.induct) auto

lemma replaceAll_untouched:
  "untouched cs q \<Longrightarrow> replaceAll (reClasses cs) r (q @ b) = q @ replaceAll (reClasses cs) r b"
proof (induction q)
  case Nil
  show ?case by simp
next
  case (Cons y q)
  then have "\<not> matchClasses cs ((y # q) @ b)"
    using canStart_match [of cs "y # q" b] by auto
  with Cons replaceAll_reClasses_Cons [of cs r y "q @ b"] show ?case by auto
qed

lemma replaceAll_passes:
  assumes "untouched cs (y # q)" and "\<forall>c\<in>set (tl cs). \<not> c y"
  shows "replaceAll (reClasses cs) r (a @ (y # q) @ b)
    = replaceAll (reClasses cs) r a @ (y # q) @ replaceAll (reClasses cs) r b"
  using replaceAll_left [OF assms(2), of r a "q @ b"] replaceAll_untouched [OF assms(1), of r b]
  by simp

lemma replaceAll_passes':
  assumes "passes cs q"
  shows "replaceAll (reClasses cs) r (a @ q @ b)
    = replaceAll (reClasses cs) r a @ q @ replaceAll (reClasses cs) r b"
proof -
  from assms obtain y q' where q: "q = y # q'"
    by (cases q) (auto simp: passes_def)
  with assms have "untouched cs (y # q')" and "\<forall>c\<in>set (tl cs). \<not> c y"
    by (auto simp: passes_def)
  then show ?thesis
    unfolding q by (rule replaceAll_passes)
qed

lemma replaceLit_passes:
  "passes (literal p) q \<Longrightarrow>
     replaceLit p r (a @ q @ b) = replaceLit p r a @ q @ replaceLit p r b"
  by (simp only: replaceLit_def replaceAll_passes')

lemma replaceLit_occurrence:
  assumes "p \<noteq> []" and "\<forall>c\<in>set (tl (lit p)). c \<noteq> hd (lit p)"
  shows "replaceLit p r (a @ lit p @ b) = replaceLit p r a @ r @ replaceLit p r b"
proof -
  from assms(1) obtain y q where q: "lit p = y # q"
    by (cases p) (auto simp: lit_def)
  have m: "matchClasses (literal p) (y # q)"
    using matchClasses_append_literal [of "lit p" "[]" "lit p"] q by (simp add: literal_def)
  have l: "length (literal p) = Suc (length q)"
    using q by (simp add: literal_def)
  have "\<forall>c\<in>set (tl (literal p)). \<not> c y"
    using assms(2) q by (auto simp: literal_def isChar_def map_tl [symmetric])
  from replaceAll_occurrence [OF m l this, of r a b] q show ?thesis
    by (simp add: replaceLit_def)
qed

lemmas entity_eval = passes_def literal_def lit_def isChar_def

lemma passes_amp: "passes (literal ''&amp;'') (lit ''&#39;'')" "passes (literal ''&amp;'') (lit ''&quot;'')"
  "passes (literal ''&amp;'') (lit ''&lt;'')" "passes (literal ''&amp;'') (lit ''&gt;'')"
  by (simp_all add: entity_eval)

lemma passes_apos: "passes (literal ''&#39;'') (lit ''&quot;'')"
  "passes (literal ''&#39;'') (lit ''&lt;'')" "passes (literal ''&#39;'') (lit ''&gt;'')"
  by (simp_all add: entity_eval)

lemma passes_quot: "passes (literal ''&quot;'') [39]"
  "passes (literal ''&quot;'') (lit ''&lt;'')" "passes (literal ''&quot;'') (lit ''&gt;'')"
  by (simp_all add: entity_eval)

lemma passes_lt: "passes (literal ''&lt;'') [39]" "passes (literal ''&lt;'') [34]"
  "passes (literal ''&lt;'') (lit ''&gt;'')"
  by (simp_all add: entity_eval)

lemma passes_gt: "passes (literal ''&gt;'') [39]" "passes (literal ''&gt;'') [34]"
  "passes (literal ''&gt;'') (lit ''<'')"
  by (simp_all add: entity_eval)

lemma occ_amp: "replaceLit ''&amp;'' r (a @ lit ''&amp;'' @ b) = replaceLit ''&amp;'' r a @ r @ replaceLit ''&amp;'' r b"
  by (rule replaceLit_occurrence) (simp_all add: lit_def)
lemma occ_apos: "replaceLit ''&#39;'' r (a @ lit ''&#39;'' @ b) = replaceLit ''&#39;'' r a @ r @ replaceLit ''&#39;'' r b"
  by (rule replaceLit_occurrence) (simp_all add: lit_def)
lemma occ_quot: "replaceLit ''&quot;'' r (a @ lit ''&quot;'' @ b) = replaceLit ''&quot;'' r a @ r @ replaceLit ''&quot;'' r b"
  by (rule replaceLit_occurrence) (simp_all add: lit_def)
lemma occ_lt: "replaceLit ''&lt;'' r (a @ lit ''&lt;'' @ b) = replaceLit ''&lt;'' r a @ r @ replaceLit ''&lt;'' r b"
  by (rule replaceLit_occurrence) (simp_all add: lit_def)
lemma occ_gt: "replaceLit ''&gt;'' r (a @ lit ''&gt;'' @ b) = replaceLit ''&gt;'' r a @ r @ replaceLit ''&gt;'' r b"
  by (rule replaceLit_occurrence) (simp_all add: lit_def)

lemma decode_apos: "decodeEntities (a @ lit ''&#39;'' @ b) = decodeEntities a @ [39] @ decodeEntities b"
  by (simp only: decodeEntities_def replaceLit_passes passes_amp passes_apos passes_quot passes_lt passes_gt
      occ_apos)
lemma decode_quot: "decodeEntities (a @ lit ''&quot;'' @ b) = decodeEntities a @ [34] @ decodeEntities b"
  by (simp only: decodeEntities_def replaceLit_passes passes_amp passes_apos passes_quot passes_lt passes_gt
      occ_quot)
lemma decode_lt: "decodeEntities (a @ lit ''&lt;'' @ b) = decodeEntities a @ lit ''<'' @ decodeEntities b"
  by (simp only: decodeEntities_def replaceLit_passes passes_amp passes_apos passes_quot passes_lt passes_gt
      occ_lt)
lemma decode_gt: "decodeEntities (a @ lit ''&gt;'' @ b) = decodeEntities a @ lit ''>'' @ decodeEntities b"
  by (simp only: decodeEntities_def replaceLit_passes passes_amp passes_apos passes_quot passes_lt passes_gt
      occ_gt)
lemma replaceAll_single_passes:
  assumes "\<forall>c\<in>set (tl cs). \<not> c y" and "\<not> matchClasses cs (y # b)"
  shows "replaceAll (reClasses cs) r (a @ [y] @ b)
    = replaceAll (reClasses cs) r a @ [y] @ replaceAll (reClasses cs) r b"
  using replaceAll_left [OF assms(1), of r a b] assms(2) replaceAll_reClasses_Cons [of cs r y b]
  by simp

lemma matchClasses_literal: "matchClasses (literal p) s \<longleftrightarrow> prefix (lit p) s"
  using matchClasses_append_literal [of "lit p" "[]" s] by (simp add: literal_def)

lemma prefix_replaceLit:
  assumes p: "hd (lit p) = 38" "p \<noteq> []" and r: "r \<noteq> []" "hd r \<notin> set w" and w: "38 \<notin> set w"
  shows "prefix w (replaceLit p r b) \<longleftrightarrow> prefix w b"
  using r(2) w
proof (induction w arbitrary: b)
  case Nil
  show ?case by simp
next
  case (Cons c w)
  from p obtain q where lp: "lit p = 38 # q"
    by (cases "lit p") (auto simp: lit_def)
  from r(1) obtain r0 r' where rr: "r = r0 # r'"
    by (cases r) auto
  show ?case
  proof (cases b)
    case Nil
    then show ?thesis by (simp add: replaceLit_def)
  next
    case b: (Cons x xs)
    show ?thesis
    proof (cases "matchClasses (literal p) (x # xs) \<and> literal p \<noteq> []")
      case True
      then have "x = 38"
        by (simp add: matchClasses_literal lp)
      moreover have "replaceLit p r b = r @ replaceLit p r (drop (length (literal p) - 1) xs)"
        unfolding replaceLit_def b by (subst replaceAll_reClasses_Cons) (use True in auto)
      ultimately show ?thesis
        using Cons.prems b rr by auto
    next
      case False
      have "replaceLit p r b = x # replaceLit p r xs"
        unfolding replaceLit_def b by (subst replaceAll_reClasses_Cons) (use False in auto)
      moreover have "prefix w (replaceLit p r xs) \<longleftrightarrow> prefix w xs"
        using Cons.IH [of xs] Cons.prems by simp
      ultimately show ?thesis
        using b by simp
    qed
  qed
qed

lemma noEntityTail_replaceLit:
  assumes "hd (lit p) = 38" "p \<noteq> []" and "r = [38] \<or> r = [39] \<or> r = [34] \<or> r = [60]"
  shows "noEntityTail (replaceLit p r b) \<longleftrightarrow> noEntityTail b"
proof -
  have "prefix (lit w) (replaceLit p r b) \<longleftrightarrow> prefix (lit w) b"
    if "w = ''#39;'' \<or> w = ''quot;'' \<or> w = ''lt;'' \<or> w = ''gt;''" for w
    using that assms(3) by (intro prefix_replaceLit [OF assms(1,2)]) (auto simp: lit_def)
  then show ?thesis
    by (simp add: noEntityTail_def)
qed

lemma amp_passes:
  assumes "noEntityTail b"
  shows "replaceLit ''&#39;'' r (a @ lit ''&'' @ b) = replaceLit ''&#39;'' r a @ lit ''&'' @ replaceLit ''&#39;'' r b"
    and "replaceLit ''&quot;'' r (a @ lit ''&'' @ b) = replaceLit ''&quot;'' r a @ lit ''&'' @ replaceLit ''&quot;'' r b"
    and "replaceLit ''&lt;'' r (a @ lit ''&'' @ b) = replaceLit ''&lt;'' r a @ lit ''&'' @ replaceLit ''&lt;'' r b"
    and "replaceLit ''&gt;'' r (a @ lit ''&'' @ b) = replaceLit ''&gt;'' r a @ lit ''&'' @ replaceLit ''&gt;'' r b"
proof -
  have l: "lit ''&'' = [38]" by (simp add: lit_def)
  have e: "lit ''&#39;'' = 38 # lit ''#39;''" "lit ''&quot;'' = 38 # lit ''quot;''"
    "lit ''&lt;'' = 38 # lit ''lt;''" "lit ''&gt;'' = 38 # lit ''gt;''"
    by (simp_all add: lit_def)
  have n: "\<not> matchClasses (literal ''&#39;'') (38 # b)" "\<not> matchClasses (literal ''&quot;'') (38 # b)"
    "\<not> matchClasses (literal ''&lt;'') (38 # b)" "\<not> matchClasses (literal ''&gt;'') (38 # b)"
    using assms by (simp_all add: matchClasses_literal e noEntityTail_def)
  show "replaceLit ''&#39;'' r (a @ lit ''&'' @ b) = replaceLit ''&#39;'' r a @ lit ''&'' @ replaceLit ''&#39;'' r b"
    unfolding l replaceLit_def by (rule replaceAll_single_passes [OF _ n(1)]) (simp add: literal_def lit_def isChar_def)
  show "replaceLit ''&quot;'' r (a @ lit ''&'' @ b) = replaceLit ''&quot;'' r a @ lit ''&'' @ replaceLit ''&quot;'' r b"
    unfolding l replaceLit_def by (rule replaceAll_single_passes [OF _ n(2)]) (simp add: literal_def lit_def isChar_def)
  show "replaceLit ''&lt;'' r (a @ lit ''&'' @ b) = replaceLit ''&lt;'' r a @ lit ''&'' @ replaceLit ''&lt;'' r b"
    unfolding l replaceLit_def by (rule replaceAll_single_passes [OF _ n(3)]) (simp add: literal_def lit_def isChar_def)
  show "replaceLit ''&gt;'' r (a @ lit ''&'' @ b) = replaceLit ''&gt;'' r a @ lit ''&'' @ replaceLit ''&gt;'' r b"
    unfolding l replaceLit_def by (rule replaceAll_single_passes [OF _ n(4)]) (simp add: literal_def lit_def isChar_def)
qed

lemma decode_amp:
  assumes "noEntityTail b"
  shows "decodeEntities (a @ lit ''&amp;'' @ b) = decodeEntities a @ lit ''&'' @ decodeEntities b"
proof -
  let ?s1 = "replaceLit ''&amp;'' (lit ''&'')" and ?s2 = "replaceLit ''&#39;'' [39]"
  let ?s3 = "replaceLit ''&quot;'' [34]" and ?s4 = "replaceLit ''&lt;'' (lit ''<'')"
  have t1: "noEntityTail (?s1 b)"
    using assms by (simp add: noEntityTail_replaceLit lit_def)
  then have t2: "noEntityTail (?s2 (?s1 b))"
    by (simp add: noEntityTail_replaceLit lit_def)
  then have t3: "noEntityTail (?s3 (?s2 (?s1 b)))"
    by (simp add: noEntityTail_replaceLit lit_def)
  then have t4: "noEntityTail (?s4 (?s3 (?s2 (?s1 b))))"
    by (simp add: noEntityTail_replaceLit lit_def)
  show ?thesis
    by (simp only: decodeEntities_def occ_amp amp_passes(1) [OF t1] amp_passes(2) [OF t2]
        amp_passes(3) [OF t3] amp_passes(4) [OF t4])
qed

lemma untouched_headfree: "\<forall>x\<in>set s. \<not> c x \<Longrightarrow> untouched (c # cs) s"
  by (induction s) simp_all

lemma replaceLit_headfree:
  assumes "p \<noteq> []" and "hd (lit p) \<notin> set s"
  shows "replaceLit p r (s @ b) = s @ replaceLit p r b"
proof -
  from assms(1) obtain y q where q: "lit p = y # q"
    by (cases p) (auto simp: lit_def)
  with assms(2) have "untouched (literal p) s"
    by (auto simp: literal_def isChar_def intro!: untouched_headfree)
  then show ?thesis
    by (simp add: replaceLit_def replaceAll_untouched)
qed

lemma decodeEntities_ampfree:
  assumes "38 \<notin> set s"
  shows "decodeEntities (s @ b) = s @ decodeEntities b"
proof -
  have "replaceLit p r (s @ b) = s @ replaceLit p r b"
    if "p = ''&amp;'' \<or> p = ''&#39;'' \<or> p = ''&quot;'' \<or> p = ''&lt;'' \<or> p = ''&gt;''" for p r b
    using that assms by (intro replaceLit_headfree) (auto simp: lit_def)
  then show ?thesis
    by (simp add: decodeEntities_def)
qed

lemma decodeEntities_Nil: "decodeEntities [] = []"
  by (simp add: decodeEntities_def replaceLit_def)

lemma double_split:
  "lit ''&amp;#39;'' = lit ''&amp;'' @ lit ''#39;''" "lit ''&amp;quot;'' = lit ''&amp;'' @ lit ''quot;''"
  "lit ''&amp;lt;'' = lit ''&amp;'' @ lit ''lt;''" "lit ''&amp;gt;'' = lit ''&amp;'' @ lit ''gt;''"
  "lit ''&'' @ lit ''#39;'' @ z = lit ''&#39;'' @ z" "lit ''&'' @ lit ''quot;'' @ z = lit ''&quot;'' @ z"
  "lit ''&'' @ lit ''lt;'' @ z = lit ''&lt;'' @ z" "lit ''&'' @ lit ''gt;'' @ z = lit ''&gt;'' @ z"
  by (simp_all add: lit_def)

lemma amp_first:
  "replaceLit ''&amp;'' (lit ''&'') (a @ lit ''&amp;#39;'' @ b)
     = replaceLit ''&amp;'' (lit ''&'') a @ lit ''&#39;'' @ replaceLit ''&amp;'' (lit ''&'') b"
  "replaceLit ''&amp;'' (lit ''&'') (a @ lit ''&amp;quot;'' @ b)
     = replaceLit ''&amp;'' (lit ''&'') a @ lit ''&quot;'' @ replaceLit ''&amp;'' (lit ''&'') b"
  "replaceLit ''&amp;'' (lit ''&'') (a @ lit ''&amp;lt;'' @ b)
     = replaceLit ''&amp;'' (lit ''&'') a @ lit ''&lt;'' @ replaceLit ''&amp;'' (lit ''&'') b"
  "replaceLit ''&amp;'' (lit ''&'') (a @ lit ''&amp;gt;'' @ b)
     = replaceLit ''&amp;'' (lit ''&'') a @ lit ''&gt;'' @ replaceLit ''&amp;'' (lit ''&'') b"
proof -
  have h: "replaceLit ''&amp;'' r (lit w @ b) = lit w @ replaceLit ''&amp;'' r b"
    if "w = ''#39;'' \<or> w = ''quot;'' \<or> w = ''lt;'' \<or> w = ''gt;''" for w r
    using that by (intro replaceLit_headfree) (auto simp: lit_def)
  show "replaceLit ''&amp;'' (lit ''&'') (a @ lit ''&amp;#39;'' @ b)
     = replaceLit ''&amp;'' (lit ''&'') a @ lit ''&#39;'' @ replaceLit ''&amp;'' (lit ''&'') b"
    by (simp only: double_split(1) append_assoc occ_amp h [of "''#39;''", simplified] double_split(5))
  show "replaceLit ''&amp;'' (lit ''&'') (a @ lit ''&amp;quot;'' @ b)
     = replaceLit ''&amp;'' (lit ''&'') a @ lit ''&quot;'' @ replaceLit ''&amp;'' (lit ''&'') b"
    by (simp only: double_split(2) append_assoc occ_amp h [of "''quot;''", simplified] double_split(6))
  show "replaceLit ''&amp;'' (lit ''&'') (a @ lit ''&amp;lt;'' @ b)
     = replaceLit ''&amp;'' (lit ''&'') a @ lit ''&lt;'' @ replaceLit ''&amp;'' (lit ''&'') b"
    by (simp only: double_split(3) append_assoc occ_amp h [of "''lt;''", simplified] double_split(7))
  show "replaceLit ''&amp;'' (lit ''&'') (a @ lit ''&amp;gt;'' @ b)
     = replaceLit ''&amp;'' (lit ''&'') a @ lit ''&gt;'' @ replaceLit ''&amp;'' (lit ''&'') b"
    by (simp only: double_split(4) append_assoc occ_amp h [of "''gt;''", simplified] double_split(8))
qed

lemma decode_double_apos:
  "decodeEntities (a @ lit ''&amp;#39;'' @ b) = decodeEntities a @ [39] @ decodeEntities b"
  by (simp only: decodeEntities_def amp_first replaceLit_passes passes_apos passes_quot passes_lt
      passes_gt occ_apos)

lemma decode_double_quot:
  "decodeEntities (a @ lit ''&amp;quot;'' @ b) = decodeEntities a @ [34] @ decodeEntities b"
  by (simp only: decodeEntities_def amp_first replaceLit_passes passes_apos passes_quot passes_lt
      passes_gt occ_quot)

lemma decode_double_lt:
  "decodeEntities (a @ lit ''&amp;lt;'' @ b) = decodeEntities a @ lit ''<'' @ decodeEntities b"
  by (simp only: decodeEntities_def amp_first replaceLit_passes passes_apos passes_quot passes_lt
      passes_gt occ_lt)

lemma decode_double_gt:
  "decodeEntities (a @ lit ''&amp;gt;'' @ b) = decodeEntities a @ lit ''>'' @ decodeEntities b"
  by (simp only: decodeEntities_def amp_first replaceLit_passes passes_apos passes_quot passes_lt
      passes_gt occ_gt)

lemma removeBracketNotes_occ:
  "removeBracketNotes (a @ bracketNotes @ b) = removeBracketNotes a @ removeBracketNotes b"
proof -
  have b: "bracketNotes = 91 # [musicNote, musicNote, musicNote, 93]"
    by (simp add: bracketNotes_def lit_def replicate_3)
  show ?thesis
    unfolding removeBracketNotes_def
    using replaceAll_occurrence [of "map isChar bracketNotes" 91
        "[musicNote, musicNote, musicNote, 93]" "[]" a b]
    by (simp add: b isChar_def musicNote_def)
qed

lemma removeNotes_occ:
  "removeNotes (a @ [musicNote] @ b) = removeNotes a @ removeNotes b"
  unfolding removeNotes_def
  using replaceAll_occurrence [of "[isChar musicNote]" musicNote "[]" "[]" a b]
  by (simp add: isChar_def)

lemma matchClasses_CI:
  "map upperCu m = map upperCu p \<Longrightarrow> matchClasses (map isCharCI p) m"
proof (induction p arbitrary: m)
  case Nil
  then show ?case by simp
next
  case (Cons c p)
  then show ?case by (cases m) (auto simp: isCharCI_def)
qed

lemma removeMusicTag_occ:
  assumes "map upperCu m = lit ''[MUSIC]''"
  shows "removeMusicTag (a @ m @ b) = removeMusicTag a @ removeMusicTag b"
proof -
  have u: "map upperCu (lit ''[Music]'') = lit ''[MUSIC]''"
    by (simp add: lit_def upperCu_def)
  with assms have mm: "matchClasses (literalCI ''[Music]'') m"
    by (simp add: literalCI_def matchClasses_CI)
  from assms have "length (map upperCu m) = 7" by (simp add: lit_length)
  then have len: "length m = 7" by simp
  then obtain y q where m: "m = y # q" by (cases m) auto
  with assms have y: "upperCu y = 91" by (simp add: lit_def)
  have "\<forall>c\<in>set (tl (literalCI ''[Music]'')). \<not> c y"
    using y by (simp add: literalCI_def lit_def isCharCI_def upperCu_def)
  from replaceAll_occurrence [OF mm [unfolded m] _ this, of "[]" a b] len m
  show ?thesis
    by (simp add: removeMusicTag_def literalCI_def lit_length)
qed

lemma set_replaceAll: "set (replaceAll re r s) \<subseteq> set r \<union> set s"
proof (induction s rule: length_induct)
  case (1 s)
  show ?case
  proof (cases s)
    case Nil
    then show ?thesis by simp
  next
    case (Cons x xs)
    show ?thesis
    proof (cases "re (x # xs)")
      case None
      with 1 Cons show ?thesis by auto
    next
      case (Some n)
      show ?thesis
      proof (cases n)
        case 0
        with 1 Cons Some show ?thesis by auto
      next
        case (Suc k)
        have "length (drop k xs) < length s" using Cons by simp
        with 1 have "set (replaceAll re r (drop k xs)) \<subseteq> set r \<union> set (drop k xs)" by blast
        moreover have "set (drop k xs) \<subseteq> set xs" by (rule set_drop_subset)
        ultimately show ?thesis using Cons Some Suc by auto
      qed
    qed
  qed
qed

lemma removeNotes_no_note: "musicNote \<notin> set (removeNotes t)"
proof (induction t)
  case Nil
  show ?case by (simp add: removeNotes_def)
next
  case (Cons x t)
  then show ?case
    using replaceAll_reClasses_Cons [of "[isChar musicNote]" "[]" x t]
    by (auto simp: removeNotes_def isChar_def)
qed

lemma set_trim: "set (trim s) \<subseteq> set s"
proof -
  have "set (trim s) \<subseteq> set (rev (dropWhile isWhite s))"
    unfolding trim_def set_rev by (auto dest: set_dropWhileD)
  also have "\<dots> \<subseteq> set s" by (auto dest: set_dropWhileD)
  finally show ?thesis .
qed

lemma cleanTranscript_no_note: "musicNote \<notin> set (cleanTranscript t)"
proof
  assume "musicNote \<in> set (cleanTranscript t)"
  then have "musicNote \<in> set (lit '' '') \<union> set (trim (removeMusic (decodeEntities t)))"
    unfolding cleanTranscript_def using set_replaceAll by blast
  then have "musicNote \<in> set (removeMusic (decodeEntities t))"
    using set_trim by (auto simp: lit_def musicNote_def)
  then have "musicNote \<in> set (removeNotes (removeBracketNotes (decodeEntities t)))"
    unfolding removeMusic_def removeMusicTag_def using set_replaceAll by fastforce
  then show False by (simp add: removeNotes_no_note)
qed

lemma removeBracketNotes_quiet:
  "91 \<notin> set s \<Longrightarrow> removeBracketNotes (s @ b) = s @ removeBracketNotes b"
proof -
  assume a: "91 \<notin> set s"
  have "map isChar bracketNotes = isChar 91 # map isChar [musicNote, musicNote, musicNote, 93]"
    by (simp add: bracketNotes_def lit_def replicate_3)
  moreover from a have "\<forall>x\<in>set s. \<not> isChar 91 x"
    by (auto simp: isChar_def)
  ultimately have "untouched (map isChar bracketNotes) s"
    by (simp only: untouched_headfree)
  then show ?thesis
    by (simp add: removeBracketNotes_def replaceAll_untouched)
qed

lemma removeNotes_quiet:
  "musicNote \<notin> set s \<Longrightarrow> removeNotes (s @ b) = s @ removeNotes b"
proof -
  assume "musicNote \<notin> set s"
  then have "untouched [isChar musicNote] s"
    by (intro untouched_headfree) (auto simp: isChar_def)
  then show ?thesis
    by (simp add: removeNotes_def replaceAll_untouched)
qed

lemma isCharCI_bracket: "isCharCI 91 x \<longleftrightarrow> x = 91"
  by (auto simp: isCharCI_def upperCu_def)

lemma removeMusicTag_quiet:
  "91 \<notin> set s \<Longrightarrow> removeMusicTag (s @ b) = s @ removeMusicTag b"
proof -
  assume a: "91 \<notin> set s"
  have "literalCI ''[Music]'' = isCharCI 91 # map isCharCI (lit ''Music]'')"
    by (simp add: literalCI_def lit_def)
  moreover from a have "\<forall>x\<in>set s. \<not> isCharCI 91 x"
    by (auto simp: isCharCI_bracket)
  ultimately have "untouched (literalCI ''[Music]'') s"
    by (simp only: untouched_headfree)
  then show ?thesis
    by (simp add: removeMusicTag_def replaceAll_untouched)
qed

lemma removeMusic_quiet:
  "91 \<notin> set s \<Longrightarrow> musicNote \<notin> set s \<Longrightarrow> removeMusic (s @ b) = s @ removeMusic b"
  by (simp add: removeMusic_def removeBracketNotes_quiet removeNotes_quiet removeMusicTag_quiet)

lemma removeMusic_bracketNotes: "removeMusic (bracketNotes @ b) = removeMusic b"
  using removeBracketNotes_occ [of "[]" b]
  by (simp add: removeMusic_def) (simp add: removeBracketNotes_def)

lemma removeMusic_note: "removeMusic ([musicNote] @ b) = removeMusic b"
proof -
  have "removeBracketNotes ([musicNote] @ b) = [musicNote] @ removeBracketNotes b"
    by (rule removeBracketNotes_quiet) (simp add: musicNote_def)
  moreover have "removeNotes ([musicNote] @ z) = removeNotes z" for z
    using removeNotes_occ [of "[]" z] by (simp add: removeNotes_def)
  ultimately show ?thesis
    by (simp only: removeMusic_def)
qed

lemma musicTag_shape:
  assumes "map upperCu m = lit ''[MUSIC]''"
  shows "\<exists>c1 c2 c3 c4 c5. m = [91, c1, c2, c3, c4, c5, 93]
           \<and> upperCu c1 = 77 \<and> upperCu c2 = 85 \<and> upperCu c3 = 83 \<and> upperCu c4 = 73
           \<and> upperCu c5 = 67"
proof -
  have b: "upperCu x = 91 \<longleftrightarrow> x = 91" "upperCu x = 93 \<longleftrightarrow> x = 93" for x
    by (auto simp: upperCu_def)
  from assms have "length m = 7"
    using length_map [of upperCu m] by (simp add: lit_length)
  then obtain c0 c1 c2 c3 c4 c5 c6 where m: "m = [c0, c1, c2, c3, c4, c5, c6]"
    by (auto simp: length_Suc_conv numeral_eq_Suc)
  with assms show ?thesis
    by (simp add: lit_def b)
qed

lemma upperCu_letter:
  "upperCu c = 77 \<Longrightarrow> c \<noteq> 91 \<and> c \<noteq> 38 \<and> c \<noteq> musicNote"
  "upperCu c = 85 \<Longrightarrow> c \<noteq> 91 \<and> c \<noteq> 38 \<and> c \<noteq> musicNote"
  "upperCu c = 83 \<Longrightarrow> c \<noteq> 91 \<and> c \<noteq> 38 \<and> c \<noteq> musicNote"
  "upperCu c = 73 \<Longrightarrow> c \<noteq> 91 \<and> c \<noteq> 38 \<and> c \<noteq> musicNote"
  "upperCu c = 67 \<Longrightarrow> c \<noteq> 91 \<and> c \<noteq> 38 \<and> c \<noteq> musicNote"
  by (auto simp: upperCu_def musicNote_def split: if_splits)

lemma musicTag_chars:
  assumes "map upperCu m = lit ''[MUSIC]''"
  shows "38 \<notin> set m" and "musicNote \<notin> set m" and "91 \<notin> set (tl m)" and "hd m = 91"
    and "m \<noteq> []" and "hd (tl m) \<noteq> musicNote"
proof -
  from musicTag_shape [OF assms] obtain c1 c2 c3 c4 c5 where
    m: "m = [91, c1, c2, c3, c4, c5, 93]" and
    u: "upperCu c1 = 77" "upperCu c2 = 85" "upperCu c3 = 83" "upperCu c4 = 73" "upperCu c5 = 67"
    by blast
  note l = upperCu_letter(1) [OF u(1)] upperCu_letter(2) [OF u(2)] upperCu_letter(3) [OF u(3)]
    upperCu_letter(4) [OF u(4)] upperCu_letter(5) [OF u(5)]
  show "38 \<notin> set m" using l by (simp add: m)
  show "musicNote \<notin> set m" using l by (simp add: m musicNote_def)
  show "91 \<notin> set (tl m)" using l by (simp add: m)
  show "hd m = 91" by (simp add: m)
  show "m \<noteq> []" by (simp add: m)
  show "hd (tl m) \<noteq> musicNote" using l by (simp add: m)
qed

lemma removeBracketNotes_tag:
  assumes "map upperCu m = lit ''[MUSIC]''"
  shows "removeBracketNotes (m @ b) = m @ removeBracketNotes b"
proof -
  note c = musicTag_chars [OF assms]
  from c(5) obtain y q where m: "m = y # q"
    by (cases m) auto
  from c(6) m c(5) musicTag_shape [OF assms] obtain z q' where q: "q = z # q'" and z: "z \<noteq> musicNote"
    by (cases q) auto
  have cs: "map isChar bracketNotes = isChar 91 # isChar musicNote # map isChar [musicNote, musicNote, 93]"
    by (simp add: bracketNotes_def lit_def replicate_3)
  have "\<forall>x\<in>set q. \<not> isChar 91 x"
    using c(3) m by (auto simp: isChar_def)
  then have "untouched (map isChar bracketNotes) q"
    unfolding cs by (rule untouched_headfree)
  moreover have "\<not> canStart (map isChar bracketNotes) (y # q)"
    using z by (simp add: cs q isChar_def)
  ultimately have "untouched (map isChar bracketNotes) m"
    by (simp add: m)
  then show ?thesis
    by (simp add: removeBracketNotes_def replaceAll_untouched)
qed

lemma removeMusic_tag:
  assumes "map upperCu m = lit ''[MUSIC]''"
  shows "removeMusic (m @ b) = removeMusic b"
proof -
  have "removeNotes (m @ z) = m @ removeNotes z" for z
    by (rule removeNotes_quiet) (rule musicTag_chars(2) [OF assms])
  moreover have "removeMusicTag (m @ z) = removeMusicTag z" for z
    using removeMusicTag_occ [OF assms, of "[]" z] by (simp add: removeMusicTag_def)
  ultimately show ?thesis
    by (simp only: removeMusic_def removeBracketNotes_tag [OF assms])
qed

lemma removeMusic_Nil: "removeMusic [] = []"
  by (simp add: removeMusic_def removeBracketNotes_def removeNotes_def removeMusicTag_def)

lemma decodeEntities_pieces:
  "wellFormed ps \<Longrightarrow> decodeEntities (concat (map written ps)) = concat (map decoded ps)"
proof (induction ps)
  case Nil
  show ?case by (simp add: decodeEntities_Nil)
next
  case (Cons p ps)
  let ?rest = "concat (map written ps)"
  from Cons have ih: "decodeEntities ?rest = concat (map decoded ps)"
    by simp
  have e: "decodeEntities (w @ ?rest) = c @ concat (map decoded ps)"
    if "decodeEntities ([] @ w @ ?rest) = decodeEntities [] @ c @ decodeEntities ?rest" for w c
    using that by (simp add: ih decodeEntities_Nil)
  show ?case
  proof (cases p)
    case (Plain s)
    with Cons.prems have "38 \<notin> set s"
      by (auto simp: list_all_iff)
    with Plain show ?thesis
      by (simp add: decodeEntities_ampfree ih)
  next
    case EntAmp
    with Cons.prems have "noEntityTail ?rest"
      by simp
    from e [OF decode_amp [OF this]] EntAmp show ?thesis
      by simp
  next
    case EntApos
    with e [OF decode_apos] show ?thesis by simp
  next
    case EntQuot
    with e [OF decode_quot] show ?thesis by simp
  next
    case EntLt
    with e [OF decode_lt] show ?thesis by simp
  next
    case EntGt
    with e [OF decode_gt] show ?thesis by simp
  next
    case DoubleApos
    with e [OF decode_double_apos] show ?thesis by simp
  next
    case DoubleQuot
    with e [OF decode_double_quot] show ?thesis by simp
  next
    case DoubleLt
    with e [OF decode_double_lt] show ?thesis by simp
  next
    case DoubleGt
    with e [OF decode_double_gt] show ?thesis by simp
  next
    case MarkNotes
    have "38 \<notin> set bracketNotes"
      by (simp add: bracketNotes_def lit_def musicNote_def)
    with MarkNotes show ?thesis
      by (simp add: decodeEntities_ampfree ih)
  next
    case MarkNote
    have "38 \<notin> set [musicNote]"
      by (simp add: musicNote_def)
    from decodeEntities_ampfree [OF this] MarkNote show ?thesis
      by (simp add: ih)
  next
    case (MarkMusic m)
    with Cons.prems have "map upperCu m = lit ''[MUSIC]''"
      by simp
    from decodeEntities_ampfree [OF musicTag_chars(1) [OF this]] MarkMusic show ?thesis
      by (simp add: ih)
  qed
qed

lemma removeMusic_pieces:
  "wellFormed ps \<Longrightarrow> removeMusic (concat (map decoded ps)) = concat (map cleaned ps)"
proof (induction ps)
  case Nil
  show ?case by (simp add: removeMusic_Nil)
next
  case (Cons p ps)
  let ?rest = "concat (map decoded ps)"
  from Cons have ih: "removeMusic ?rest = concat (map cleaned ps)"
    by simp
  have q: "removeMusic (s @ ?rest) = s @ concat (map cleaned ps)"
    if "s = lit ''&'' \<or> s = [39] \<or> s = [34] \<or> s = lit ''<'' \<or> s = lit ''>''" for s
    using that by (subst removeMusic_quiet) (auto simp: ih lit_def musicNote_def)
  show ?case
  proof (cases p)
    case (Plain s)
    with Cons.prems have "91 \<notin> set s" "musicNote \<notin> set s"
      by (auto simp: list_all_iff)
    with Plain show ?thesis
      by (simp add: removeMusic_quiet ih)
  next
    case MarkNotes
    then show ?thesis
      by (simp add: removeMusic_bracketNotes ih)
  next
    case MarkNote
    with removeMusic_note [of ?rest] show ?thesis
      by (simp add: ih)
  next
    case (MarkMusic m)
    with Cons.prems have "map upperCu m = lit ''[MUSIC]''"
      by simp
    from removeMusic_tag [OF this] MarkMusic show ?thesis
      by (simp add: ih)
  qed (use q q [of "[39]", simplified] q [of "[34]", simplified] in simp_all)
qed

lemma cleanTranscript_pieces:
  "wellFormed ps \<Longrightarrow>
     cleanTranscript (concat (map written ps))
       = replaceAll reWhitePlus (lit '' '') (trim (concat (map cleaned ps)))"
  by (simp add: cleanTranscript_def decodeEntities_pieces removeMusic_pieces)

lemma vtdYield_Some:
  "vtdYield env u = Some t \<Longrightarrow> \<exists>out. runVtd env u = VtdStdout out \<and> t = trim out"
  by (auto simp: vtdYield_def split: vtd_outcome.splits)

lemma api1Yield_Some:
  "api1Yield env u = Some t \<Longrightarrow>
     \<exists>d. fetchApi1 env u = FetchOk d \<and> (body_transcript d = Some t \<or> body_text d = Some t)"
  by (auto simp: api1Yield_def orElse_def split: fetch_outcome.splits if_splits)

lemma api2Yield_Some:
  "api2Yield env u = Some t \<Longrightarrow>
     fetchApi2 env u = FetchOk (Some (ContentString t))
     \<or> (\<exists>cs. fetchApi2 env u = FetchOk (Some (ContentArray cs)) \<and> t = join (lit '' '') cs)"
  by (auto simp: api2Yield_def split: fetch_outcome.splits option.splits api2_content.splits)

lemma extractTranscript_library_checked:
  assumes v: "extractVideoId url = Some v"
    and f: "fetchTranscript env v = LibSegments (Some segments)"
  shows "(20 < length (cleanTranscript (join (lit '' '') segments)) \<longrightarrow>
            extractTranscript env url
              = (Inr (cleanTranscript (join (lit '' '') segments)), [SrcLibrary]))
       \<and> (length (cleanTranscript (join (lit '' '') segments)) \<le> 20 \<longrightarrow>
            SrcVtd \<in> set (snd (extractTranscript env url)))"
proof -
  from f have y: "libYield env v = Some (cleanTranscript (join (lit '' '') segments))"
    by (simp add: libYield_def)
  show ?thesis
    by (auto simp: extractTranscript_chain [OF v] y longText_Some split: option.splits)
qed

lemma extractTranscript_fallback_verbatim:
  assumes r: "extractTranscript env url = (Inr t, tr)" and tr: "tr \<noteq> [SrcLibrary]"
  shows "(\<exists>out. runVtd env url = VtdStdout out \<and> t = trim out)
       \<or> (\<exists>d. fetchApi1 env url = FetchOk d \<and> (body_transcript d = Some t \<or> body_text d = Some t))
       \<or> fetchApi2 env url = FetchOk (Some (ContentString t))
       \<or> (\<exists>cs. fetchApi2 env url = FetchOk (Some (ContentArray cs)) \<and> t = join (lit '' '') cs)"
proof (cases "extractVideoId url")
  case None
  with r show ?thesis by (simp add: extractTranscript_def)
next
  case (Some v)
  from extractTranscript_sound [OF Some r] tr
  consider "vtdYield env url = Some t" | "api1Yield env url = Some t" | "api2Yield env url = Some t"
    by blast
  then show ?thesis
  proof cases
    case 1
    then show ?thesis using vtdYield_Some by blast
  next
    case 2
    then show ?thesis using api1Yield_Some by blast
  next
    case 3
    then show ?thesis using api2Yield_Some by blast
  qed
qed

lemma cleanTranscript_library_pieces:
  assumes v: "extractVideoId url = Some v"
    and f: "fetchTranscript env v = LibSegments (Some segments)"
    and j: "join (lit '' '') segments = concat (map written ps)"
    and w: "wellFormed ps"
    and l: "20 < length (replaceAll reWhitePlus (lit '' '') (trim (concat (map cleaned ps))))"
  shows "extractTranscript env url
          = (Inr (replaceAll reWhitePlus (lit '' '') (trim (concat (map cleaned ps)))),
             [SrcLibrary])"
proof -
  have c: "cleanTranscript (join (lit '' '') segments)
      = replaceAll reWhitePlus (lit '' '') (trim (concat (map cleaned ps)))"
    unfolding j by (rule cleanTranscript_pieces [OF w])
  from extractTranscript_library_checked [OF v f] l show ?thesis
    by (simp add: c)
qed

text \<open>
  C9 (amended). The cleaning of a library transcript is the chain of global replacements
  \<open>&amp;\<close>, \<open>&#39;\<close>, \<open>&quot;\<close>, \<open>&lt;\<close>, \<open>&gt;\<close> (\<open>decodeEntities\<close>), then the bracketed
  notes, the single notes and \<open>[Music]\<close> in any letter case (\<open>removeMusic\<close>), then \<open>trim\<close>
  and the white-space collapse.
  \<^item> Each replacement call replaces every occurrence of its entity, in every context
    \<open>a\<close>, \<open>b\<close>, by its character; the rest of the text is processed on its own.
  \<^item> Through the whole of \<open>decodeEntities\<close>, every occurrence of \<open>&#39;\<close>, \<open>&quot;\<close>, \<open>&lt;\<close>,
    \<open>&gt;\<close> becomes the apostrophe, the double quote, \<open><\<close>, \<open>>\<close>. An occurrence of \<open>&amp;\<close>
    becomes \<open>&\<close> when the text after it does not start with \<open>#39;\<close>, \<open>quot;\<close>, \<open>lt;\<close> or
    \<open>gt;\<close>; followed by one of these it is decoded twice, to the apostrophe, the double
    quote, \<open><\<close> or \<open>>\<close> (the source does so on purpose, as its comment says).
  \<^item> Each removal call deletes every occurrence of its marker, and no music note is left
    in a cleaned transcript.
  \<^item> The whole cleaning, on a transcript that is a well-formed sequence of pieces (plain
    text without ampersand, opening bracket and note; entities, singly or doubly
    encoded; markers): every entity is replaced by its character and every marker is
    removed, and the result is trimmed and its white space collapsed.
  \<^item> The length check reads the cleaned text: the library transcript is returned, cleaned,
    when the cleaned text is longer than 20 code units, and otherwise the next source is
    invoked.
  \<^item> A transcript returned from a fallback source is what that source delivered: the
    trimmed standard output of (b), the \<open>transcript\<close> or \<open>text\<close> field of (c), the
    \<open>content\<close> string of (d) or its segments joined by a space; none is cleaned.
\<close>

theorem cleaning_of_library_transcripts:
  "replaceLit ''&amp;'' (lit ''&'') (a @ lit ''&amp;'' @ b)
      = replaceLit ''&amp;'' (lit ''&'') a @ lit ''&'' @ replaceLit ''&amp;'' (lit ''&'') b
   \<and> replaceLit ''&#39;'' [39] (a @ lit ''&#39;'' @ b)
      = replaceLit ''&#39;'' [39] a @ [39] @ replaceLit ''&#39;'' [39] b
   \<and> replaceLit ''&quot;'' [34] (a @ lit ''&quot;'' @ b)
      = replaceLit ''&quot;'' [34] a @ [34] @ replaceLit ''&quot;'' [34] b
   \<and> replaceLit ''&lt;'' (lit ''<'') (a @ lit ''&lt;'' @ b)
      = replaceLit ''&lt;'' (lit ''<'') a @ lit ''<'' @ replaceLit ''&lt;'' (lit ''<'') b
   \<and> replaceLit ''&gt;'' (lit ''>'') (a @ lit ''&gt;'' @ b)
      = replaceLit ''&gt;'' (lit ''>'') a @ lit ''>'' @ replaceLit ''&gt;'' (lit ''>'') b
   \<and> (noEntityTail b \<longrightarrow>
         decodeEntities (a @ lit ''&amp;'' @ b) = decodeEntities a @ lit ''&'' @ decodeEntities b)
   \<and> decodeEntities (a @ lit ''&#39;'' @ b) = decodeEntities a @ [39] @ decodeEntities b
   \<and> decodeEntities (a @ lit ''&quot;'' @ b) = decodeEntities a @ [34] @ decodeEntities b
   \<and> decodeEntities (a @ lit ''&lt;'' @ b) = decodeEntities a @ lit ''<'' @ decodeEntities b
   \<and> decodeEntities (a @ lit ''&gt;'' @ b) = decodeEntities a @ lit ''>'' @ decodeEntities b
   \<and> decodeEntities (a @ lit ''&amp;#39;'' @ b) = decodeEntities a @ [39] @ decodeEntities b
   \<and> decodeEntities (a @ lit ''&amp;quot;'' @ b) = decodeEntities a @ [34] @ decodeEntities b
   \<and> decodeEntities (a @ lit ''&amp;lt;'' @ b) = decodeEntities a @ lit ''<'' @ decodeEntities b
   \<and> decodeEntities (a @ lit ''&amp;gt;'' @ b) = decodeEntities a @ lit ''>'' @ decodeEntities b
   \<and> removeBracketNotes (a @ bracketNotes @ b) = removeBracketNotes a @ removeBracketNotes b
   \<and> removeNotes (a @ [musicNote] @ b) = removeNotes a @ removeNotes b
   \<and> (map upperCu m = lit ''[MUSIC]'' \<longrightarrow>
         removeMusicTag (a @ m @ b) = removeMusicTag a @ removeMusicTag b)
   \<and> musicNote \<notin> set (cleanTranscript t)
   \<and> (wellFormed ps \<longrightarrow>
         cleanTranscript (concat (map written ps))
           = replaceAll reWhitePlus (lit '' '') (trim (concat (map cleaned ps))))
   \<and> (extractVideoId url = Some v \<and> fetchTranscript env v = LibSegments (Some segments) \<longrightarrow>
         (20 < length (cleanTranscript (join (lit '' '') segments)) \<longrightarrow>
            extractTranscript env url
              = (Inr (cleanTranscript (join (lit '' '') segments)), [SrcLibrary]))
         \<and> (length (cleanTranscript (join (lit '' '') segments)) \<le> 20 \<longrightarrow>
            SrcVtd \<in> set (snd (extractTranscript env url))))
   \<and> (extractVideoId url = Some v \<and> fetchTranscript env v = LibSegments (Some segments)
        \<and> join (lit '' '') segments = concat (map written ps) \<and> wellFormed ps
        \<and> 20 < length (replaceAll reWhitePlus (lit '' '') (trim (concat (map cleaned ps)))) \<longrightarrow>
         extractTranscript env url
           = (Inr (replaceAll reWhitePlus (lit '' '') (trim (concat (map cleaned ps)))),
              [SrcLibrary]))
   \<and> (extractTranscript env url = (Inr t', tr) \<and> tr \<noteq> [SrcLibrary] \<longrightarrow>
         (\<exists>out. runVtd env url = VtdStdout out \<and> t' = trim out)
         \<or> (\<exists>d. fetchApi1 env url = FetchOk d
                \<and> (body_transcript d = Some t' \<or> body_text d = Some t'))
         \<or> fetchApi2 env url = FetchOk (Some (ContentString t'))
         \<or> (\<exists>cs. fetchApi2 env url = FetchOk (Some (ContentArray cs))
                \<and> t' = join (lit '' '') cs))"
proof -
  note c1 = occ_amp [of "lit ''&''" a b]
  note c2 = occ_apos [of "[39]" a b]
  note c3 = occ_quot [of "[34]" a b]
  note c4 = occ_lt [of "lit ''<''" a b]
  note c5 = occ_gt [of "lit ''>''" a b]
  have c6: "noEntityTail b \<longrightarrow>
         decodeEntities (a @ lit ''&amp;'' @ b) = decodeEntities a @ lit ''&'' @ decodeEntities b"
    using decode_amp [of b a] by blast
  note c7 = decode_apos [of a b]
  note c8 = decode_quot [of a b]
  note c9 = decode_lt [of a b]
  note c10 = decode_gt [of a b]
  note c11 = decode_double_apos [of a b]
  note c12 = decode_double_quot [of a b]
  note c13 = decode_double_lt [of a b]
  note c14 = decode_double_gt [of a b]
  note c15 = removeBracketNotes_occ [of a b]
  note c16 = removeNotes_occ [of a b]
  have c17: "map upperCu m = lit ''[MUSIC]'' \<longrightarrow>
         removeMusicTag (a @ m @ b) = removeMusicTag a @ removeMusicTag b"
    using removeMusicTag_occ [of m a b] by blast
  note c18 = cleanTranscript_no_note [of t]
  have c19: "wellFormed ps \<longrightarrow>
         cleanTranscript (concat (map written ps))
           = replaceAll reWhitePlus (lit '' '') (trim (concat (map cleaned ps)))"
    using cleanTranscript_pieces [of ps] by blast
  have c20: "extractVideoId url = Some v \<and> fetchTranscript env v = LibSegments (Some segments) \<longrightarrow>
         (20 < length (cleanTranscript (join (lit '' '') segments)) \<longrightarrow>
            extractTranscript env url
              = (Inr (cleanTranscript (join (lit '' '') segments)), [SrcLibrary]))
         \<and> (length (cleanTranscript (join (lit '' '') segments)) \<le> 20 \<longrightarrow>
            SrcVtd \<in> set (snd (extractTranscript env url)))"
    using extractTranscript_library_checked [of url v env segments] by blast
  have c21: "extractVideoId url = Some v \<and> fetchTranscript env v = LibSegments (Some segments)
        \<and> join (lit '' '') segments = concat (map written ps) \<and> wellFormed ps
        \<and> 20 < length (replaceAll reWhitePlus (lit '' '') (trim (concat (map cleaned ps)))) \<longrightarrow>
         extractTranscript env url
           = (Inr (replaceAll reWhitePlus (lit '' '') (trim (concat (map cleaned ps)))),
              [SrcLibrary])"
    using cleanTranscript_library_pieces [of url v env segments ps] by blast
  have c22: "extractTranscript env url = (Inr t', tr) \<and> tr \<noteq> [SrcLibrary] \<longrightarrow>
         (\<exists>out. runVtd env url = VtdStdout out \<and> t' = trim out)
         \<or> (\<exists>d. fetchApi1 env url = FetchOk d
                \<and> (body_transcript d = Some t' \<or> body_text d = Some t'))
         \<or> fetchApi2 env url = FetchOk (Some (ContentString t'))
         \<or> (\<exists>cs. fetchApi2 env url = FetchOk (Some (ContentArray cs))
                \<and> t' = join (lit '' '') cs)"
    using extractTranscript_fallback_verbatim [of env url t' tr] by blast
  from c1 c2 c3 c4 c5 c6 c7 c8 c9 c10 c11 c12 c13 c14 c15 c16 c17 c18 c19 c20 c21 c22
  show ?thesis
    by (intro conjI)
qed

lemma cleanTranscript_ampersands:
  "cleanTranscript (lit ''&amp;&amp;&amp;&amp;&amp;'') = lit ''&&&&&''"
  by (simp add: clean_eval)

lemma trim_entities:
  "trim (lit ''Tom &amp; Jerry &lt;3 forever'') = lit ''Tom &amp; Jerry &lt;3 forever''"
  by (simp add: trim_def lit_def isWhite_def)

lemma examplePieces_written:
  "join (lit '' '')
     [lit ''Tom &amp; Jerry [music]'',
      lit ''say &quot;hello there&quot; &amp;lt;3'' @ bracketNotes @ [musicNote]]
     = concat (map written examplePieces)"
  by (simp add: examplePieces_def lit_def bracketNotes_def)

lemma examplePieces_wellFormed: "wellFormed examplePieces"
  by (simp add: examplePieces_def noEntityTail_def lit_def upperCu_def musicNote_def)

lemma examplePieces_cleaned:
  "replaceAll reWhitePlus (lit '' '') (trim (concat (map cleaned examplePieces)))
     = lit ''Tom & Jerry say \"hello there\" <3''"
  by (simp add: examplePieces_def lit_def trim_def isWhite_def reWhitePlus_def)

theorem cleaning_of_library_transcripts_witness:
  "decodeEntities (lit ''Tom '' @ lit ''&amp;'' @ lit '' Jerry'')
     = decodeEntities (lit ''Tom '') @ lit ''&'' @ decodeEntities (lit '' Jerry'')
   \<and> removeMusicTag (lit ''la '' @ lit ''[music]'' @ lit '' la'')
     = removeMusicTag (lit ''la '') @ removeMusicTag (lit '' la'')
   \<and> cleanTranscript (concat (map written examplePieces))
     = lit ''Tom & Jerry say \"hello there\" <3''
   \<and> extractTranscript piecesEnv (lit ''https://youtu.be/dQw4w9WgXcQ'')
     = (Inr (lit ''Tom & Jerry say \"hello there\" <3''), [SrcLibrary])
   \<and> SrcVtd \<in> set (snd (extractTranscript entityEnv (lit ''https://youtu.be/dQw4w9WgXcQ'')))
   \<and> extractTranscript libraryEnv (lit ''https://youtu.be/dQw4w9WgXcQ'')
     = (Inr (cleanTranscript (join (lit '' '') [lit ''abcdefghijklmnopqrstuvwxyz''])), [SrcLibrary])
   \<and> ((\<exists>out. runVtd entityEnv (lit ''https://youtu.be/dQw4w9WgXcQ'') = VtdStdout out
             \<and> lit ''Tom &amp; Jerry &lt;3 forever'' = trim out)
       \<or> (\<exists>d. fetchApi1 entityEnv (lit ''https://youtu.be/dQw4w9WgXcQ'') = FetchOk d
             \<and> (body_transcript d = Some (lit ''Tom &amp; Jerry &lt;3 forever'')
                \<or> body_text d = Some (lit ''Tom &amp; Jerry &lt;3 forever'')))
       \<or> fetchApi2 entityEnv (lit ''https://youtu.be/dQw4w9WgXcQ'')
            = FetchOk (Some (ContentString (lit ''Tom &amp; Jerry &lt;3 forever'')))
       \<or> (\<exists>cs. fetchApi2 entityEnv (lit ''https://youtu.be/dQw4w9WgXcQ'')
                 = FetchOk (Some (ContentArray cs))
             \<and> lit ''Tom &amp; Jerry &lt;3 forever'' = join (lit '' '') cs))"
proof -
  let ?u = "lit ''https://youtu.be/dQw4w9WgXcQ''" and ?v = "lit ''dQw4w9WgXcQ''"
  let ?out = "lit ''Tom &amp; Jerry &lt;3 forever''"
  let ?segs = "[lit ''Tom &amp; Jerry [music]'',
      lit ''say &quot;hello there&quot; &amp;lt;3'' @ bracketNotes @ [musicNote]]"
  note v = extractVideoId_youtu_be
  have tail: "noEntityTail (lit '' Jerry'')"
    by (simp add: noEntityTail_def lit_def)
  have up: "map upperCu (lit ''[music]'') = lit ''[MUSIC]''"
    by (simp add: lit_def upperCu_def)
  have segs: "fetchTranscript entityEnv ?v = LibSegments (Some [lit ''&amp;&amp;&amp;&amp;&amp;''])"
    by (simp add: entityEnv_def)
  have short: "length (cleanTranscript (join (lit '' '') [lit ''&amp;&amp;&amp;&amp;&amp;''])) \<le> 20"
    by (simp add: cleanTranscript_ampersands lit_length)
  have lsegs: "fetchTranscript libraryEnv ?v = LibSegments (Some [lit ''abcdefghijklmnopqrstuvwxyz''])"
    by (simp add: libraryEnv_def)
  have long: "20 < length (cleanTranscript (join (lit '' '') [lit ''abcdefghijklmnopqrstuvwxyz'']))"
    by (simp add: cleanTranscript_alphabet lit_length)
  have psegs: "fetchTranscript piecesEnv ?v = LibSegments (Some ?segs)"
    by (simp add: piecesEnv_def)
  have plong: "20 < length (replaceAll reWhitePlus (lit '' '')
                              (trim (concat (map cleaned examplePieces))))"
    by (simp add: examplePieces_cleaned lit_length)
  have ly: "\<not> longText (libYield entityEnv ?v)"
    using short by (simp add: libYield_def entityEnv_def longText_Some)
  have vy: "longText (vtdYield entityEnv ?u)" "vtdYield entityEnv ?u = Some ?out"
    by (simp_all add: vtdYield_def entityEnv_def trim_entities longText_Some lit_length)
  have res: "extractTranscript entityEnv ?u = (Inr ?out, [SrcLibrary, SrcVtd])"
    using ly vy by (simp add: extractTranscript_chain [OF v])
  have ne: "[SrcLibrary, SrcVtd] \<noteq> [SrcLibrary]" by simp
  note w1 = cleaning_of_library_transcripts
    [where a = "lit ''Tom ''" and b = "lit '' Jerry''" and m = "lit ''[music]''"
       and env = entityEnv and url = ?u and v = ?v
       and segments = "[lit ''&amp;&amp;&amp;&amp;&amp;'']" and t' = ?out
       and tr = "[SrcLibrary, SrcVtd]" and ps = examplePieces]
  note w2 = cleaning_of_library_transcripts
    [where a = "lit ''la ''" and b = "lit '' la''" and m = "lit ''[music]''"
       and env = libraryEnv and url = ?u and v = ?v
       and segments = "[lit ''abcdefghijklmnopqrstuvwxyz'']"]
  note w3 = cleaning_of_library_transcripts
    [where env = piecesEnv and url = ?u and v = ?v and segments = ?segs and ps = examplePieces]
  from w1 [THEN conjunct2, THEN conjunct2, THEN conjunct2, THEN conjunct2, THEN conjunct2, THEN conjunct1, rule_format, OF tail] have c1: "decodeEntities (lit ''Tom '' @ lit ''&amp;'' @ lit '' Jerry'')
     = decodeEntities (lit ''Tom '') @ lit ''&'' @ decodeEntities (lit '' Jerry'')" .
  from w2 [THEN conjunct2, THEN conjunct2, THEN conjunct2, THEN conjunct2, THEN conjunct2, THEN conjunct2, THEN conjunct2, THEN conjunct2, THEN conjunct2, THEN conjunct2, THEN conjunct2, THEN conjunct2, THEN conjunct2, THEN conjunct2, THEN conjunct2, THEN conjunct2, THEN conjunct1, rule_format, OF up] have c2: "removeMusicTag (lit ''la '' @ lit ''[music]'' @ lit '' la'')
     = removeMusicTag (lit ''la '') @ removeMusicTag (lit '' la'')" .
  from w1 [THEN conjunct2, THEN conjunct2, THEN conjunct2, THEN conjunct2, THEN conjunct2, THEN conjunct2, THEN conjunct2, THEN conjunct2, THEN conjunct2, THEN conjunct2, THEN conjunct2, THEN conjunct2, THEN conjunct2, THEN conjunct2, THEN conjunct2, THEN conjunct2, THEN conjunct2, THEN conjunct2, THEN conjunct1, rule_format, OF examplePieces_wellFormed]
  have "cleanTranscript (concat (map written examplePieces))
     = replaceAll reWhitePlus (lit '' '') (trim (concat (map cleaned examplePieces)))" .
  then have c3: "cleanTranscript (concat (map written examplePieces))
     = lit ''Tom & Jerry say \"hello there\" <3''"
    by (simp only: examplePieces_cleaned)
  from w3 [THEN conjunct2, THEN conjunct2, THEN conjunct2, THEN conjunct2, THEN conjunct2, THEN conjunct2, THEN conjunct2, THEN conjunct2, THEN conjunct2, THEN conjunct2, THEN conjunct2, THEN conjunct2, THEN conjunct2, THEN conjunct2, THEN conjunct2, THEN conjunct2, THEN conjunct2, THEN conjunct2, THEN conjunct2, THEN conjunct2, THEN conjunct1, rule_format] v psegs examplePieces_written examplePieces_wellFormed plong
  have "extractTranscript piecesEnv ?u
     = (Inr (replaceAll reWhitePlus (lit '' '') (trim (concat (map cleaned examplePieces)))),
        [SrcLibrary])"
    by blast
  then have c4: "extractTranscript piecesEnv ?u
     = (Inr (lit ''Tom & Jerry say \"hello there\" <3''), [SrcLibrary])"
    by (simp only: examplePieces_cleaned)
  from w1 [THEN conjunct2, THEN conjunct2, THEN conjunct2, THEN conjunct2, THEN conjunct2, THEN conjunct2, THEN conjunct2, THEN conjunct2, THEN conjunct2, THEN conjunct2, THEN conjunct2, THEN conjunct2, THEN conjunct2, THEN conjunct2, THEN conjunct2, THEN conjunct2, THEN conjunct2, THEN conjunct2, THEN conjunct2, THEN conjunct1, rule_format] v segs short have c5: "SrcVtd \<in> set (snd (extractTranscript entityEnv ?u))"
    by blast
  from w2 [THEN conjunct2, THEN conjunct2, THEN conjunct2, THEN conjunct2, THEN conjunct2, THEN conjunct2, THEN conjunct2, THEN conjunct2, THEN conjunct2, THEN conjunct2, THEN conjunct2, THEN conjunct2, THEN conjunct2, THEN conjunct2, THEN conjunct2, THEN conjunct2, THEN conjunct2, THEN conjunct2, THEN conjunct2, THEN conjunct1, rule_format] v lsegs long have c6: "extractTranscript libraryEnv ?u
     = (Inr (cleanTranscript (join (lit '' '') [lit ''abcdefghijklmnopqrstuvwxyz''])), [SrcLibrary])"
    by blast
  from w1 [THEN conjunct2, THEN conjunct2, THEN conjunct2, THEN conjunct2, THEN conjunct2, THEN conjunct2, THEN conjunct2, THEN conjunct2, THEN conjunct2, THEN conjunct2, THEN conjunct2, THEN conjunct2, THEN conjunct2, THEN conjunct2, THEN conjunct2, THEN conjunct2, THEN conjunct2, THEN conjunct2, THEN conjunct2, THEN conjunct2, THEN conjunct2, rule_format] res ne have c7: "(\<exists>out. runVtd entityEnv ?u = VtdStdout out \<and> ?out = trim out)
       \<or> (\<exists>d. fetchApi1 entityEnv ?u = FetchOk d
             \<and> (body_transcript d = Some ?out \<or> body_text d = Some ?out))
       \<or> fetchApi2 entityEnv ?u = FetchOk (Some (ContentString ?out))
       \<or> (\<exists>cs. fetchApi2 entityEnv ?u = FetchOk (Some (ContentArray cs))
             \<and> ?out = join (lit '' '') cs)"
    by blast
  from c1 c2 c3 c4 c5 c6 c7 show ?thesis
    by (intro conjI)
qed

text \<open>
  C9 as stated fails: in the library transcript \<open>1 &amp;lt; 2 is what the speaker said\<close> the
  occurrence of \<open>&amp;\<close> is not replaced with \<open>&\<close>. The cleaning decodes it twice and the
  transcript returned reads \<open>1 < 2 is what the speaker said\<close>, without any ampersand.
\<close>

theorem cleaning_double_decoding_counterexample:
  "lit ''1 &amp;lt; 2 is what the speaker said''
     = lit ''1 '' @ lit ''&amp;'' @ lit ''lt; 2 is what the speaker said''
   \<and> extractTranscript doubleEncodedEnv (lit ''https://youtu.be/dQw4w9WgXcQ'')
     = (Inr (lit ''1 < 2 is what the speaker said''), [SrcLibrary])
   \<and> lit ''1 < 2 is what the speaker said''
     \<noteq> lit ''1 '' @ lit ''&'' @ lit ''lt; 2 is what the speaker said''
   \<and> 38 \<notin> set (lit ''1 < 2 is what the speaker said'')"
proof -
  have c: "cleanTranscript (lit ''1 &amp;lt; 2 is what the speaker said'')
      = lit ''1 < 2 is what the speaker said''"
    by (simp add: clean_eval)
  have f: "fetchTranscript doubleEncodedEnv (lit ''dQw4w9WgXcQ'')
      = LibSegments (Some [lit ''1 &amp;lt; 2 is what the speaker said''])"
    by (simp add: doubleEncodedEnv_def)
  have "20 < length (cleanTranscript (join (lit '' '') [lit ''1 &amp;lt; 2 is what the speaker said'']))"
    by (simp add: c lit_length)
  with extractTranscript_library_checked [OF extractVideoId_youtu_be f]
  have "extractTranscript doubleEncodedEnv (lit ''https://youtu.be/dQw4w9WgXcQ'')
     = (Inr (lit ''1 < 2 is what the speaker said''), [SrcLibrary])"
    by (simp add: c)
  then show ?thesis
    by (simp add: lit_def)
qed

text \<open>
  A plain stretch may not contain an opening bracket: the removal of \<open>[Music]\<close> is one
  pass, and what it leaves can read \<open>[Music]\<close> again.
\<close>

lemma cleanTranscript_nested_tag:
  "cleanTranscript (lit ''[Mu[Music]sic] plays'') = lit ''[Music] plays''"
  by (simp add: clean_eval)

section \<open>Properties of generateImage\<close>

lemma stripDataUrl_data_url:
  assumes "w \<noteq> []" and "list_all isWord w"
  shows "stripDataUrl (lit ''data:image/'' @ w @ lit '';base64,'' @ payload) = payload"
proof -
  have p: "prefix (lit ''data:image/'') (lit ''data:image/'' @ w @ lit '';base64,'' @ payload)"
    by simp
  have d: "drop 11 (lit ''data:image/'' @ w @ lit '';base64,'' @ payload)
      = w @ lit '';base64,'' @ payload"
    by (simp add: lit_length)
  have semi: "lit '';base64,'' @ payload = 59 # (lit ''base64,'' @ payload)"
    by (simp add: lit_def)
  have nw: "\<not> isWord 59" by (simp add: isWord_def)
  from assms(2) have all: "\<And>x. x \<in> set w \<Longrightarrow> isWord x"
    by (simp add: list_all_iff)
  have tw: "takeWhile isWord (w @ lit '';base64,'' @ payload) = w"
    unfolding semi using all nw by (simp add: takeWhile_append2)
  have dw: "dropWhile isWord (w @ lit '';base64,'' @ payload) = lit '';base64,'' @ payload"
    unfolding semi using all nw by (simp add: dropWhile_append2)
  have d8: "drop 8 (lit '';base64,'' @ payload) = payload"
    by (simp add: lit_length)
  show ?thesis
    unfolding stripDataUrl_def Let_def using p assms(1)
    by (simp only: d tw dw d8 if_True prefixI [OF refl] simp_thms)
qed

lemma find_isImagePart_None: "find isImagePart ps = None \<longleftrightarrow> (\<forall>p\<in>set ps. \<not> isImagePart p)"
  by (auto simp: find_None_iff)

lemma inlineImage_error:
  "inlineImage c = Inl e \<Longrightarrow>
     e = NoImageReturned \<and> (\<forall>ps. c = ContentParts ps \<longrightarrow> (\<forall>p\<in>set ps. \<not> isImagePart p))"
  by (auto simp: inlineImage_def find_isImagePart_None [symmetric]
      split: content.splits option.splits)

lemma inlineImage_none:
  assumes "\<forall>ps. c = ContentParts ps \<longrightarrow> (\<forall>p\<in>set ps. \<not> isImagePart p)"
  shows "inlineImage c = Inl NoImageReturned"
proof (cases c)
  case (ContentParts ps)
  with assms have "find isImagePart ps = None"
    by (simp add: find_isImagePart_None)
  with ContentParts show ?thesis by (simp add: inlineImage_def)
qed (simp_all add: inlineImage_def)

lemma inlineImage_found:
  "find isImagePart ps = Some p \<Longrightarrow> part_url p = Some url \<Longrightarrow>
     inlineImage (ContentParts ps)
       = Inr \<lparr>imageBase64 = stripDataUrl url, revisedPrompt = textContent (ContentParts ps)\<rparr>"
  by (auto simp: inlineImage_def textContent_def orDefault_def isImagePart_def truthy_def
      dest!: find_Some_iff [THEN iffD1] split: option.splits)

lemma firstImageUrl_truthy:
  "truthy (firstImageUrl m) \<longleftrightarrow> (\<exists>url imgs. msg_images m = Some (Some url # imgs) \<and> url \<noteq> [])"
  by (auto simp: firstImageUrl_def truthy_def split: option.splits list.splits)

lemma generateImage_ok:
  assumes "truthy apiKey" and "provider (imageRequest prompt options) = HttpOk data"
    and "choices data = m # ms"
  shows "generateImage apiKey provider prompt options =
    (if truthy (firstImageUrl m)
     then Inr \<lparr>imageBase64 = stripDataUrl (orDefault (firstImageUrl m) []),
               revisedPrompt = (if truthy (textContent (msg_content m))
                                then textContent (msg_content m) else None)\<rparr>
     else inlineImage (msg_content m))"
  using assms by (simp add: generateImage_def)

text \<open>
  C3 (amended). For a response with a message \<open>m\<close> (the API key being set and the call
  answered with status \<open>ok\<close>):
  \<^item> side channel: when the first entry of \<open>m.images\<close> carries a non-empty URL, the result
    is the pair of that URL without its \<open>data:image/...;base64,\<close> prefix and the message
    text, which is \<open>undefined\<close> when the message has no text content or an empty one; no
    error is raised;
  \<^item> inline: otherwise, when the content is an array with an \<open>image_url\<close> part that has a
    URL, the result is the pair of the first such URL, stripped, and the \<open>text\<close> of the
    first text part;
  \<^item> neither: otherwise NoImageReturned is raised, and with a message present this is
    the only error raised;
  \<^item> a response without any message raises the error "No message in OpenRouter
    response" instead;
  \<^item> stripping a data URL \<open>data:image/<word>;base64,<payload>\<close> leaves the payload.
\<close>

theorem generateImage_normalizes:
  assumes key: "truthy apiKey" and resp: "provider (imageRequest prompt options) = HttpOk data"
  shows
   "(choices data = m # ms \<and> msg_images m = Some (Some url # imgs) \<and> url \<noteq> [] \<longrightarrow>
       generateImage apiKey provider prompt options
         = Inr \<lparr>imageBase64 = stripDataUrl url,
                revisedPrompt = (if truthy (textContent (msg_content m))
                                 then textContent (msg_content m) else None)\<rparr>)
    \<and> (choices data = m # ms \<and> msg_images m = Some (Some url # imgs) \<and> url \<noteq> []
        \<and> \<not> truthy (textContent (msg_content m)) \<longrightarrow>
       generateImage apiKey provider prompt options
         = Inr \<lparr>imageBase64 = stripDataUrl url, revisedPrompt = None\<rparr>)
    \<and> (choices data = m # ms
        \<and> (\<forall>u imgs'. msg_images m = Some (Some u # imgs') \<longrightarrow> u = [])
        \<and> msg_content m = ContentParts ps \<and> find isImagePart ps = Some p
        \<and> part_url p = Some url \<longrightarrow>
       generateImage apiKey provider prompt options
         = Inr \<lparr>imageBase64 = stripDataUrl url, revisedPrompt = textContent (ContentParts ps)\<rparr>)
    \<and> (choices data = m # ms
        \<and> (\<forall>u imgs'. msg_images m = Some (Some u # imgs') \<longrightarrow> u = [])
        \<and> (\<forall>qs. msg_content m = ContentParts qs \<longrightarrow> (\<forall>q\<in>set qs. \<not> isImagePart q)) \<longrightarrow>
       generateImage apiKey provider prompt options = Inl NoImageReturned)
    \<and> (choices data = m # ms \<and> generateImage apiKey provider prompt options = Inl e \<longrightarrow>
       e = NoImageReturned
       \<and> (\<forall>u imgs'. msg_images m = Some (Some u # imgs') \<longrightarrow> u = [])
       \<and> (\<forall>qs. msg_content m = ContentParts qs \<longrightarrow> (\<forall>q\<in>set qs. \<not> isImagePart q)))
    \<and> (choices data = [] \<longrightarrow>
       generateImage apiKey provider prompt options = Inl NoMessageInResponse)
    \<and> (w \<noteq> [] \<and> list_all isWord w \<longrightarrow>
       stripDataUrl (lit ''data:image/'' @ w @ lit '';base64,'' @ payload) = payload)"
proof -
  have c1: "choices data = m # ms \<and> msg_images m = Some (Some url # imgs) \<and> url \<noteq> [] \<longrightarrow>
       generateImage apiKey provider prompt options
         = Inr \<lparr>imageBase64 = stripDataUrl url,
                revisedPrompt = (if truthy (textContent (msg_content m))
                                 then textContent (msg_content m) else None)\<rparr>"
  proof
    assume h: "choices data = m # ms \<and> msg_images m = Some (Some url # imgs) \<and> url \<noteq> []"
    then have "truthy (firstImageUrl m)" and "firstImageUrl m = Some url"
      by (auto simp: firstImageUrl_truthy) (simp add: firstImageUrl_def)
    with h show "generateImage apiKey provider prompt options
         = Inr \<lparr>imageBase64 = stripDataUrl url,
                revisedPrompt = (if truthy (textContent (msg_content m))
                                 then textContent (msg_content m) else None)\<rparr>"
      by (simp add: generateImage_ok [of apiKey provider prompt options data, OF key resp]
          orDefault_def)
  qed
  then have c2: "choices data = m # ms \<and> msg_images m = Some (Some url # imgs) \<and> url \<noteq> []
        \<and> \<not> truthy (textContent (msg_content m)) \<longrightarrow>
       generateImage apiKey provider prompt options
         = Inr \<lparr>imageBase64 = stripDataUrl url, revisedPrompt = None\<rparr>"
    by simp
  have c3: "choices data = m # ms
        \<and> (\<forall>u imgs'. msg_images m = Some (Some u # imgs') \<longrightarrow> u = [])
        \<and> msg_content m = ContentParts ps \<and> find isImagePart ps = Some p
        \<and> part_url p = Some url \<longrightarrow>
       generateImage apiKey provider prompt options
         = Inr \<lparr>imageBase64 = stripDataUrl url, revisedPrompt = textContent (ContentParts ps)\<rparr>"
  proof
    assume h: "choices data = m # ms
        \<and> (\<forall>u imgs'. msg_images m = Some (Some u # imgs') \<longrightarrow> u = [])
        \<and> msg_content m = ContentParts ps \<and> find isImagePart ps = Some p
        \<and> part_url p = Some url"
    then have "\<not> truthy (firstImageUrl m)"
      by (auto simp: firstImageUrl_truthy)
    with h show "generateImage apiKey provider prompt options
         = Inr \<lparr>imageBase64 = stripDataUrl url, revisedPrompt = textContent (ContentParts ps)\<rparr>"
      by (simp add: generateImage_ok [of apiKey provider prompt options data, OF key resp]
          inlineImage_found)
  qed
  have c4: "choices data = m # ms
        \<and> (\<forall>u imgs'. msg_images m = Some (Some u # imgs') \<longrightarrow> u = [])
        \<and> (\<forall>qs. msg_content m = ContentParts qs \<longrightarrow> (\<forall>q\<in>set qs. \<not> isImagePart q)) \<longrightarrow>
       generateImage apiKey provider prompt options = Inl NoImageReturned"
  proof
    assume h: "choices data = m # ms
        \<and> (\<forall>u imgs'. msg_images m = Some (Some u # imgs') \<longrightarrow> u = [])
        \<and> (\<forall>qs. msg_content m = ContentParts qs \<longrightarrow> (\<forall>q\<in>set qs. \<not> isImagePart q))"
    then have "\<not> truthy (firstImageUrl m)"
      by (auto simp: firstImageUrl_truthy)
    moreover from h have "inlineImage (msg_content m) = Inl NoImageReturned"
      by (intro inlineImage_none) blast
    ultimately show "generateImage apiKey provider prompt options = Inl NoImageReturned"
      using h
      by (simp add: generateImage_ok [of apiKey provider prompt options data, OF key resp])
  qed
  have c5: "choices data = m # ms \<and> generateImage apiKey provider prompt options = Inl e \<longrightarrow>
       e = NoImageReturned
       \<and> (\<forall>u imgs'. msg_images m = Some (Some u # imgs') \<longrightarrow> u = [])
       \<and> (\<forall>qs. msg_content m = ContentParts qs \<longrightarrow> (\<forall>q\<in>set qs. \<not> isImagePart q))"
  proof
    assume h: "choices data = m # ms \<and> generateImage apiKey provider prompt options = Inl e"
    then have nt: "\<not> truthy (firstImageUrl m)" and i: "inlineImage (msg_content m) = Inl e"
      by (auto simp: generateImage_ok [of apiKey provider prompt options data, OF key resp]
          split: if_splits)
    from nt have "\<forall>u imgs'. msg_images m = Some (Some u # imgs') \<longrightarrow> u = []"
      by (auto simp: firstImageUrl_truthy)
    with inlineImage_error [OF i]
    show "e = NoImageReturned
       \<and> (\<forall>u imgs'. msg_images m = Some (Some u # imgs') \<longrightarrow> u = [])
       \<and> (\<forall>qs. msg_content m = ContentParts qs \<longrightarrow> (\<forall>q\<in>set qs. \<not> isImagePart q))"
      by blast
  qed
  have c6: "choices data = [] \<longrightarrow>
       generateImage apiKey provider prompt options = Inl NoMessageInResponse"
    using key resp by (simp add: generateImage_def)
  have c7: "w \<noteq> [] \<and> list_all isWord w \<longrightarrow>
       stripDataUrl (lit ''data:image/'' @ w @ lit '';base64,'' @ payload) = payload"
    by (simp add: stripDataUrl_data_url)
  from c1 c2 c3 c4 c5 c6 c7 show ?thesis
    by (intro conjI)
qed

lemma truthy_key: "truthy (Some (lit ''sk-test''))"
  by (simp add: truthy_def lit_def)

theorem generateImage_normalizes_witness:
  "generateImage (Some (lit ''sk-test'')) (\<lambda>_. HttpOk sideChannelResponse) (lit ''a red fox'')
       noImageOptions
     = Inr \<lparr>imageBase64 = lit ''AAAA'', revisedPrompt = None\<rparr>
   \<and> generateImage (Some (lit ''sk-test'')) (\<lambda>_. HttpOk inlineResponse) (lit ''a red fox'')
       noImageOptions
     = Inr \<lparr>imageBase64 = lit ''BBBB'', revisedPrompt = Some (lit ''a red fox'')\<rparr>
   \<and> generateImage (Some (lit ''sk-test'')) (\<lambda>_. HttpOk textOnlyResponse) (lit ''a red fox'')
       noImageOptions
     = Inl NoImageReturned
   \<and> generateImage (Some (lit ''sk-test'')) (\<lambda>_. HttpOk emptyResponse) (lit ''a red fox'')
       noImageOptions
     = Inl NoMessageInResponse"
proof -
  let ?k = "Some (lit ''sk-test'')" and ?p = "lit ''a red fox''"
  let ?png = "lit ''data:image/png;base64,AAAA''" and ?jpg = "lit ''data:image/jpeg;base64,BBBB''"
  let ?m1 = "\<lparr>msg_content = ContentText [], msg_images = Some [Some ?png]\<rparr>"
  let ?m2 = "\<lparr>msg_content = ContentParts inlineParts, msg_images = None\<rparr>"
  let ?m3 = "\<lparr>msg_content = ContentText (lit ''I cannot draw that''), msg_images = None\<rparr>"
  let ?img = "\<lparr>part_type = lit ''image_url'', part_text = None, part_url = Some ?jpg\<rparr>"
  have png: "?png = lit ''data:image/'' @ lit ''png'' @ lit '';base64,'' @ lit ''AAAA''"
    and jpg: "?jpg = lit ''data:image/'' @ lit ''jpeg'' @ lit '';base64,'' @ lit ''BBBB''"
    by (simp_all add: lit_def)
  have word: "lit ''png'' \<noteq> [] \<and> list_all isWord (lit ''png'')"
    "lit ''jpeg'' \<noteq> [] \<and> list_all isWord (lit ''jpeg'')"
    by (simp_all add: lit_def isWord_def)
  have s1: "stripDataUrl ?png = lit ''AAAA''"
    unfolding png
    using word(1) generateImage_normalizes [OF truthy_key,
        where provider = "\<lambda>_. HttpOk sideChannelResponse" and data = sideChannelResponse
          and w = "lit ''png''" and payload = "lit ''AAAA''"]
    by blast
  have s2: "stripDataUrl ?jpg = lit ''BBBB''"
    unfolding jpg
    using word(2) generateImage_normalizes [OF truthy_key,
        where provider = "\<lambda>_. HttpOk inlineResponse" and data = inlineResponse
          and w = "lit ''jpeg''" and payload = "lit ''BBBB''"]
    by blast
  have a1: "choices sideChannelResponse = ?m1 # [] \<and> msg_images ?m1 = Some (Some ?png # [])
      \<and> ?png \<noteq> [] \<and> \<not> truthy (textContent (msg_content ?m1))"
    by (simp add: sideChannelResponse_def textContent_def truthy_def lit_def)
  from generateImage_normalizes [OF truthy_key,
      where provider = "\<lambda>_. HttpOk sideChannelResponse" and data = sideChannelResponse
        and m = ?m1 and ms = "[]" and url = ?png and imgs = "[]" and prompt = ?p
        and options = noImageOptions] a1
  have r1: "generateImage ?k (\<lambda>_. HttpOk sideChannelResponse) ?p noImageOptions
      = Inr \<lparr>imageBase64 = stripDataUrl ?png, revisedPrompt = None\<rparr>"
    by blast
  have f: "find isImagePart inlineParts = Some ?img"
    by (simp add: inlineParts_def isImagePart_def truthy_def lit_def)
  have t: "textContent (ContentParts inlineParts) = Some (lit ''a red fox'')"
    by (simp add: inlineParts_def textContent_def isTextPart_def)
  have a2: "choices inlineResponse = ?m2 # []
      \<and> (\<forall>u imgs'. msg_images ?m2 = Some (Some u # imgs') \<longrightarrow> u = [])
      \<and> msg_content ?m2 = ContentParts inlineParts \<and> find isImagePart inlineParts = Some ?img
      \<and> part_url ?img = Some ?jpg"
    using f by (simp add: inlineResponse_def)
  from generateImage_normalizes [OF truthy_key,
      where provider = "\<lambda>_. HttpOk inlineResponse" and data = inlineResponse
        and m = ?m2 and ms = "[]" and url = ?jpg and ps = inlineParts and p = ?img
        and prompt = ?p and options = noImageOptions] a2
  have r2: "generateImage ?k (\<lambda>_. HttpOk inlineResponse) ?p noImageOptions
      = Inr \<lparr>imageBase64 = stripDataUrl ?jpg, revisedPrompt = textContent (ContentParts inlineParts)\<rparr>"
    by blast
  have a3: "choices textOnlyResponse = ?m3 # []
      \<and> (\<forall>u imgs'. msg_images ?m3 = Some (Some u # imgs') \<longrightarrow> u = [])
      \<and> (\<forall>qs. msg_content ?m3 = ContentParts qs \<longrightarrow> (\<forall>q\<in>set qs. \<not> isImagePart q))"
    by (simp add: textOnlyResponse_def)
  from generateImage_normalizes [OF truthy_key,
      where provider = "\<lambda>_. HttpOk textOnlyResponse" and data = textOnlyResponse
        and m = ?m3 and ms = "[]" and prompt = ?p and options = noImageOptions] a3
  have r3: "generateImage ?k (\<lambda>_. HttpOk textOnlyResponse) ?p noImageOptions
      = Inl NoImageReturned"
    by blast
  have a4: "choices emptyResponse = []"
    by (simp add: emptyResponse_def)
  from generateImage_normalizes [OF truthy_key,
      where provider = "\<lambda>_. HttpOk emptyResponse" and data = emptyResponse
        and prompt = ?p and options = noImageOptions] a4
  have r4: "generateImage ?k (\<lambda>_. HttpOk emptyResponse) ?p noImageOptions
      = Inl NoMessageInResponse"
    by blast
  from r1 r2 r3 r4 s1 s2 t show ?thesis by simp
qed

text \<open>
  C3 as stated fails: a response without any choice carries an image in neither shape,
  and \<open>generateImage\<close> raises "No message in OpenRouter response", not NoImageReturned.
\<close>

theorem generateImage_no_message_counterexample:
  "choices emptyResponse = []
   \<and> generateImage (Some (lit ''sk-test'')) (\<lambda>_. HttpOk emptyResponse) (lit ''a red fox'')
        noImageOptions
      = Inl NoMessageInResponse
   \<and> NoMessageInResponse \<noteq> NoImageReturned"
  by (simp add: generateImage_def emptyResponse_def truthy_key)

text \<open>
  The earlier revision of the client does not know the side channel: for the response
  whose image is in the \<open>images\<close> array it raises NoImageReturned, and it raises the same
  error for a response without a message.
\<close>

lemma generateImageLegacy_side_channel:
  "generateImageLegacy (Some (lit ''sk-test'')) (\<lambda>_. HttpOk sideChannelResponse) (lit ''a red fox'')
       noImageOptions
     = Inl NoImageReturned
   \<and> generateImageLegacy (Some (lit ''sk-test'')) (\<lambda>_. HttpOk emptyResponse) (lit ''a red fox'')
       noImageOptions
     = Inl NoImageReturned"
  by (simp add: generateImageLegacy_def truthy_key sideChannelResponse_def emptyResponse_def
      inlineImage_def)

lemma generateImageLegacy_inline:
  assumes "truthy apiKey" and "provider (imageRequestLegacy prompt options) = HttpOk data"
    and "choices data = m # ms"
  shows "generateImageLegacy apiKey provider prompt options = inlineImage (msg_content m)"
  using assms by (simp add: generateImageLegacy_def)

section \<open>Properties of generateThumbnails\<close>

lemma map_filter_map_comp: "List.map_filter f (map g xs) = List.map_filter (f \<circ> g) xs"
  by (induction xs) (auto split: option.splits)

lemma map_filter_cong_set:
  "(\<And>x. x \<in> set xs \<Longrightarrow> f x = g x) \<Longrightarrow> List.map_filter f xs = List.map_filter g xs"
  by (induction xs) (auto split: option.splits)

lemma generateLoop_Cons:
  "generateLoop world analysis options i (c # cs) =
     (case generateFor world analysis options i c of
        Inr r \<Rightarrow> (thumbnailOf world i c r # fst (generateLoop world analysis options (Suc i) cs),
                  i # snd (generateLoop world analysis options (Suc i) cs))
      | Inl e \<Rightarrow> (fst (generateLoop world analysis options (Suc i) cs),
                  i # snd (generateLoop world analysis options (Suc i) cs)))"
  by (simp split: prod.splits sum.splits)

lemma generateLoop_attempts:
  "snd (generateLoop world analysis options i cs) = [i..<i + length cs]"
proof (induction cs arbitrary: i)
  case Nil
  show ?case by simp
next
  case (Cons c cs)
  have "[i..<i + length (c # cs)] = i # [Suc i..<Suc i + length cs]"
    by (subst upt_rec) simp
  with Cons [of "Suc i"] show ?case
    by (simp only: generateLoop_Cons split: sum.splits) simp
qed

lemma generateLoop_results:
  "fst (generateLoop world analysis options i cs) =
     List.map_filter
       (\<lambda>j. case generateFor world analysis options (i + j) (cs ! j) of
              Inr r \<Rightarrow> Some (thumbnailOf world (i + j) (cs ! j) r)
            | Inl e \<Rightarrow> None)
       [0..<length cs]"
proof (induction cs arbitrary: i)
  case Nil
  show ?case by simp
next
  case (Cons c cs)
  let ?g = "\<lambda>k d. case generateFor world analysis options k d of
              Inr r \<Rightarrow> Some (thumbnailOf world k d r) | Inl e \<Rightarrow> None"
  have upt: "[0..<length (c # cs)] = 0 # map Suc [0..<length cs]"
    by (simp add: upt_conv_Cons map_Suc_upt del: upt_Suc)
  have "List.map_filter (\<lambda>j. ?g (i + j) ((c # cs) ! j)) [0..<length (c # cs)]
      = (case ?g i c of None \<Rightarrow> [] | Some t \<Rightarrow> [t])
        @ List.map_filter ((\<lambda>j. ?g (i + j) ((c # cs) ! j)) \<circ> Suc) [0..<length cs]"
    unfolding upt
    by (cases "generateFor world analysis options i c") (simp_all add: map_filter_map_comp)
  also have "List.map_filter ((\<lambda>j. ?g (i + j) ((c # cs) ! j)) \<circ> Suc) [0..<length cs]
      = List.map_filter (\<lambda>j. ?g (Suc i + j) (cs ! j)) [0..<length cs]"
    by (rule map_filter_cong_set) (simp split: sum.splits)
  also have "\<dots> = fst (generateLoop world analysis options (Suc i) cs)"
    using Cons [of "Suc i"] by simp
  finally show ?case
    by (cases "generateFor world analysis options i c") (simp_all split: prod.splits)
qed

lemma generateThumbnails_results:
  "generateThumbnails world analysis options =
     (if successfulItems world analysis options (selectedConcepts options analysis) = []
      then Inl NoThumbnailsGenerated
      else Inr (successfulItems world analysis options (selectedConcepts options analysis)),
      [0..<length (selectedConcepts options analysis)])"
proof -
  let ?cs = "selectedConcepts options analysis"
  obtain rs ats where l: "generateLoop world analysis options 0 ?cs = (rs, ats)"
    by (cases "generateLoop world analysis options 0 ?cs")
  have "List.map_filter
       (\<lambda>j. case generateFor world analysis options (0 + j) (?cs ! j) of
              Inr r \<Rightarrow> Some (thumbnailOf world (0 + j) (?cs ! j) r)
            | Inl e \<Rightarrow> None) [0..<length ?cs]
      = successfulItems world analysis options ?cs"
    unfolding successfulItems_def
    by (rule map_filter_cong_set) (simp add: outcomeAt_def split: sum.splits)
  with generateLoop_results [of world analysis options 0 ?cs] l
  have rs: "rs = successfulItems world analysis options ?cs"
    by simp
  from generateLoop_attempts [of world analysis options 0 ?cs] l
  have ats: "ats = [0..<length ?cs]" by simp
  show ?thesis
    by (simp add: generateThumbnails_def Let_def l rs ats)
qed

lemma map_filter_Nil_iff: "List.map_filter f xs = [] \<longleftrightarrow> (\<forall>x\<in>set xs. f x = None)"
  by (induction xs) (auto split: option.splits)

lemma length_map_filter:
  "length (List.map_filter f xs) = length (filter (\<lambda>x. f x \<noteq> None) xs)"
  by (induction xs) (auto split: option.splits)

lemma length_filter_one_out:
  assumes "j < n" and "\<not> P j" and "\<forall>i<n. i \<noteq> j \<longrightarrow> P i"
  shows "length (filter P [0..<n]) = n - 1"
proof -
  have "filter P [0..<n] = filter (\<lambda>i. i \<noteq> j) [0..<n]"
    using assms by (intro filter_cong) auto
  moreover have "length (filter (\<lambda>i. i \<noteq> j) [0..<n]) + length (filter (\<lambda>i. \<not> i \<noteq> j) [0..<n]) = n"
    using sum_length_filter_compl [of "\<lambda>i. i \<noteq> j" "[0..<n]"] by simp
  moreover have "filter (\<lambda>i. \<not> i \<noteq> j) [0..<n] = [j]"
    using assms(1) by (induction n) (auto simp: less_Suc_eq)
  ultimately show ?thesis by simp
qed

lemma sliceTo_length_nonneg: "0 \<le> k \<Longrightarrow> length (sliceTo k xs) = min (nat k) (length xs)"
  by (simp add: sliceTo_def)

lemma outcomeAt_None:
  "outcomeAt world analysis options cs i = None
     \<longleftrightarrow> (\<exists>e. generateFor world analysis options i (cs ! i) = Inl e)"
  by (simp add: outcomeAt_def split: sum.splits)

lemma successfulItems_Nil:
  "successfulItems world analysis options cs = []
     \<longleftrightarrow> (\<forall>i<length cs. outcomeAt world analysis options cs i = None)"
  by (auto simp: successfulItems_def map_filter_Nil_iff)

lemma successfulItems_length:
  "length (successfulItems world analysis options cs)
     = length (filter (\<lambda>i. outcomeAt world analysis options cs i \<noteq> None) [0..<length cs])"
  by (simp add: successfulItems_def length_map_filter)

text \<open>
  C4. With \<open>cs\<close> the concepts selected by the count, \<open>generateThumbnails\<close> returns exactly
  the thumbnails of the generations that succeed, in concept order (\<open>successfulItems\<close>),
  and omits those that fail; it raises NoThumbnailsGenerated, and no other error, exactly
  when every attempted generation fails. The number of results is the number of
  successful generations: a single failure among four concepts yields three results.
\<close>

theorem generateThumbnails_partial_success:
  "fst (generateThumbnails world analysis options)
     = (if successfulItems world analysis options (selectedConcepts options analysis) = []
        then Inl NoThumbnailsGenerated
        else Inr (successfulItems world analysis options (selectedConcepts options analysis)))
   \<and> (fst (generateThumbnails world analysis options) = Inl NoThumbnailsGenerated
        \<longleftrightarrow> (\<forall>i<length (selectedConcepts options analysis).
               \<exists>e. generateFor world analysis options i
                      (selectedConcepts options analysis ! i) = Inl e))
   \<and> (fst (generateThumbnails world analysis options) = Inl err \<longrightarrow> err = NoThumbnailsGenerated)
   \<and> (fst (generateThumbnails world analysis options) = Inr rs \<longrightarrow>
        rs = List.map_filter
               (outcomeAt world analysis options (selectedConcepts options analysis))
               [0..<length (selectedConcepts options analysis)]
        \<and> length rs
            = length (filter
                (\<lambda>i. outcomeAt world analysis options (selectedConcepts options analysis) i \<noteq> None)
                [0..<length (selectedConcepts options analysis)]))
   \<and> (length (selectedConcepts options analysis) = 4 \<and> j < 4
        \<and> (\<exists>e. generateFor world analysis options j (selectedConcepts options analysis ! j) = Inl e)
        \<and> (\<forall>i<4. i \<noteq> j \<longrightarrow>
              (\<exists>r. generateFor world analysis options i (selectedConcepts options analysis ! i)
                     = Inr r))
       \<longrightarrow> (\<exists>rs'. fst (generateThumbnails world analysis options) = Inr rs' \<and> length rs' = 3))"
proof -
  let ?cs = "selectedConcepts options analysis"
  let ?S = "successfulItems world analysis options ?cs"
  let ?out = "outcomeAt world analysis options ?cs"
  have r: "fst (generateThumbnails world analysis options)
      = (if ?S = [] then Inl NoThumbnailsGenerated else Inr ?S)"
    by (simp add: generateThumbnails_results)
  have c2: "fst (generateThumbnails world analysis options) = Inl NoThumbnailsGenerated
        \<longleftrightarrow> (\<forall>i<length ?cs. \<exists>e. generateFor world analysis options i (?cs ! i) = Inl e)"
    by (simp add: r successfulItems_Nil outcomeAt_None)
  have c3: "fst (generateThumbnails world analysis options) = Inl err \<longrightarrow> err = NoThumbnailsGenerated"
    by (simp add: r)
  have c4: "fst (generateThumbnails world analysis options) = Inr rs \<longrightarrow>
        rs = List.map_filter ?out [0..<length ?cs]
        \<and> length rs = length (filter (\<lambda>i. ?out i \<noteq> None) [0..<length ?cs])"
    using successfulItems_length [of world analysis options ?cs]
    by (auto simp: r successfulItems_def split: if_splits)
  have c5: "length ?cs = 4 \<and> j < 4
        \<and> (\<exists>e. generateFor world analysis options j (?cs ! j) = Inl e)
        \<and> (\<forall>i<4. i \<noteq> j \<longrightarrow> (\<exists>r. generateFor world analysis options i (?cs ! i) = Inr r))
       \<longrightarrow> (\<exists>rs'. fst (generateThumbnails world analysis options) = Inr rs' \<and> length rs' = 3)"
  proof
    assume h: "length ?cs = 4 \<and> j < 4
        \<and> (\<exists>e. generateFor world analysis options j (?cs ! j) = Inl e)
        \<and> (\<forall>i<4. i \<noteq> j \<longrightarrow> (\<exists>r. generateFor world analysis options i (?cs ! i) = Inr r))"
    then have j: "\<not> (?out j \<noteq> None)"
      by (simp add: outcomeAt_None)
    from h have others: "\<forall>i<4. i \<noteq> j \<longrightarrow> ?out i \<noteq> None"
      by (auto simp: outcomeAt_None)
    from h have "j < 4" by simp
    from length_filter_one_out [OF this j others]
    have "length (filter (\<lambda>i. ?out i \<noteq> None) [0..<4]) = 3"
      by simp
    with h have "length ?S = 3"
      by (simp add: successfulItems_length)
    moreover from this have "?S \<noteq> []" by auto
    ultimately show "\<exists>rs'. fst (generateThumbnails world analysis options) = Inr rs' \<and> length rs' = 3"
      by (simp add: r)
  qed
  from r c2 c3 c4 c5 show ?thesis
    by (intro conjI)
qed

lemma generateImage_http_error:
  "truthy k \<Longrightarrow> generateImage k (\<lambda>request. HttpError s b) prompt opts = Inl (ProviderError s b)"
  by (simp add: generateImage_def)

lemma generateImage_throws:
  "truthy k \<Longrightarrow> generateImage k (\<lambda>request. HttpThrows) prompt opts = Inl NetworkError"
  by (simp add: generateImage_def)

lemma generateImage_side_channel:
  "truthy k \<Longrightarrow>
     \<exists>r. generateImage k (\<lambda>request. HttpOk sideChannelResponse) prompt opts = Inr r"
  by (simp add: generateImage_def sideChannelResponse_def firstImageUrl_def truthy_def lit_eq_Nil)

lemma selectedConcepts_fourConcepts:
  "selectedConcepts noThumbnailOptions fourConcepts = thumbnailConcepts fourConcepts"
  "length (thumbnailConcepts fourConcepts) = 4"
  by (simp_all add: selectedConcepts_def effectiveCount_def sliceTo_def noThumbnailOptions_def
      fourConcepts_def)

theorem generateThumbnails_partial_success_witness:
  "(\<exists>rs. fst (generateThumbnails thirdFailsWorld fourConcepts noThumbnailOptions) = Inr rs
         \<and> length rs = 3)
   \<and> fst (generateThumbnails allFailWorld fourConcepts noThumbnailOptions)
       = Inl NoThumbnailsGenerated"
proof -
  let ?cs = "selectedConcepts noThumbnailOptions fourConcepts"
  have len: "length ?cs = 4"
    by (simp add: selectedConcepts_fourConcepts)
  have bad: "\<exists>e. generateFor thirdFailsWorld fourConcepts noThumbnailOptions 2 (?cs ! 2) = Inl e"
    by (simp add: generateFor_def thirdFailsWorld_def generateImage_http_error truthy_key)
  have good: "\<forall>i<4. i \<noteq> 2 \<longrightarrow>
      (\<exists>r. generateFor thirdFailsWorld fourConcepts noThumbnailOptions i (?cs ! i) = Inr r)"
    by (simp add: generateFor_def thirdFailsWorld_def generateImage_side_channel truthy_key)
  note p = generateThumbnails_partial_success
    [of thirdFailsWorld fourConcepts noThumbnailOptions _ _ 2,
      THEN conjunct2, THEN conjunct2, THEN conjunct2, THEN conjunct2, rule_format]
  have a: "\<exists>rs. fst (generateThumbnails thirdFailsWorld fourConcepts noThumbnailOptions) = Inr rs
         \<and> length rs = 3"
  proof (rule p, intro conjI)
    show "length ?cs = 4" by (rule len)
    show "(2::nat) < 4" by simp
    show "\<exists>e. generateFor thirdFailsWorld fourConcepts noThumbnailOptions 2 (?cs ! 2) = Inl e"
      by (rule bad)
    show "\<forall>i<4. i \<noteq> 2 \<longrightarrow>
      (\<exists>r. generateFor thirdFailsWorld fourConcepts noThumbnailOptions i (?cs ! i) = Inr r)"
      by (rule good)
  qed
  have all: "\<forall>i<length ?cs.
      \<exists>e. generateFor allFailWorld fourConcepts noThumbnailOptions i (?cs ! i) = Inl e"
    by (simp add: generateFor_def allFailWorld_def generateImage_throws truthy_key)
  note q = generateThumbnails_partial_success
    [of allFailWorld fourConcepts noThumbnailOptions, THEN conjunct2, THEN conjunct1]
  from q all
  have b: "fst (generateThumbnails allFailWorld fourConcepts noThumbnailOptions)
       = Inl NoThumbnailsGenerated"
    by (rule iffD2)
  from a b show ?thesis by (rule conjI)
qed

lemma generateFor_count:
  "generateFor world analysis (options\<lparr>count := k\<rparr>) i c = generateFor world analysis options i c"
  by (simp add: generateFor_def)

lemma generateLoop_count:
  "generateLoop world analysis (options\<lparr>count := k\<rparr>) i cs
     = generateLoop world analysis options i cs"
  by (induction cs arbitrary: i) (simp_all add: generateFor_count)

lemma selectedConcepts_length:
  "0 \<le> effectiveCount options analysis \<Longrightarrow>
     length (selectedConcepts options analysis) = nat (effectiveCount options analysis)"
  by (auto simp: selectedConcepts_def sliceTo_def effectiveCount_def min_def split: option.splits)

lemma selectedConcepts_length_le:
  "length (selectedConcepts options analysis) \<le> length (thumbnailConcepts analysis)"
  by (auto simp: selectedConcepts_def sliceTo_def)

lemma successfulItems_length_le:
  "length (successfulItems world analysis options cs) \<le> length cs"
  using length_filter_le [of "\<lambda>i. outcomeAt world analysis options cs i \<noteq> None" "[0..<length cs]"]
  by (simp add: successfulItems_length)

text \<open>
  C6 (amended). The count that applies is the requested count when one is given and is
  not zero, and the default 4 when it is omitted or zero. For a count that is omitted or
  not negative, \<open>generateThumbnails\<close> attempts exactly the minimum of that count and the
  number of concepts of the analysis, once per selected concept and in order; it never
  returns more thumbnails than it attempted, nor attempts more generations than there
  are concepts. A count of 6 against four concepts attempts four generations and returns
  at most four thumbnails.
\<close>

theorem generateThumbnails_count_cap:
  "((count options = None \<and> c = 4) \<or> (count options = Some 0 \<and> c = 4)
      \<or> (count options = Some (int c) \<and> 0 < c)
     \<longrightarrow> snd (generateThumbnails world analysis options)
           = [0..<min c (length (thumbnailConcepts analysis))])
   \<and> length (snd (generateThumbnails world analysis options))
       \<le> length (thumbnailConcepts analysis)
   \<and> (fst (generateThumbnails world analysis options) = Inr rs \<longrightarrow>
         length rs \<le> length (snd (generateThumbnails world analysis options)))
   \<and> (count options = Some 6 \<and> length (thumbnailConcepts analysis) = 4 \<longrightarrow>
         length (snd (generateThumbnails world analysis options)) = 4
         \<and> (fst (generateThumbnails world analysis options) = Inr rs \<longrightarrow> length rs \<le> 4))"
proof -
  let ?cs = "selectedConcepts options analysis"
  let ?n = "length (thumbnailConcepts analysis)"
  have att: "snd (generateThumbnails world analysis options) = [0..<length ?cs]"
    by (simp add: generateThumbnails_results)
  have res: "fst (generateThumbnails world analysis options) = Inr rs \<longrightarrow> length rs \<le> length ?cs"
    using successfulItems_length_le [of world analysis options ?cs]
    by (auto simp: generateThumbnails_results split: if_splits)
  have c1: "(count options = None \<and> c = 4) \<or> (count options = Some 0 \<and> c = 4)
      \<or> (count options = Some (int c) \<and> 0 < c)
     \<longrightarrow> snd (generateThumbnails world analysis options) = [0..<min c ?n]"
  proof
    assume h: "(count options = None \<and> c = 4) \<or> (count options = Some 0 \<and> c = 4)
      \<or> (count options = Some (int c) \<and> 0 < c)"
    then have e: "effectiveCount options analysis = min (int c) (int ?n)"
      by (auto simp: effectiveCount_def)
    then have "length ?cs = min c ?n"
      using selectedConcepts_length [of options analysis] by (simp add: min_def split: if_splits)
    with att show "snd (generateThumbnails world analysis options) = [0..<min c ?n]"
      by simp
  qed
  have c2: "length (snd (generateThumbnails world analysis options)) \<le> ?n"
    by (simp add: att selectedConcepts_length_le)
  have c3: "fst (generateThumbnails world analysis options) = Inr rs \<longrightarrow>
         length rs \<le> length (snd (generateThumbnails world analysis options))"
    using res by (simp add: att)
  have c4: "count options = Some 6 \<and> ?n = 4 \<longrightarrow>
         length (snd (generateThumbnails world analysis options)) = 4
         \<and> (fst (generateThumbnails world analysis options) = Inr rs \<longrightarrow> length rs \<le> 4)"
  proof
    assume h: "count options = Some 6 \<and> ?n = 4"
    then have "effectiveCount options analysis = 4"
      by (simp add: effectiveCount_def)
    then have "length ?cs = 4"
      using selectedConcepts_length [of options analysis] by simp
    with att res show "length (snd (generateThumbnails world analysis options)) = 4
         \<and> (fst (generateThumbnails world analysis options) = Inr rs \<longrightarrow> length rs \<le> 4)"
      by simp
  qed
  from c1 c2 c3 c4 show ?thesis
    by (intro conjI)
qed

lemma generateThumbnails_some_success:
  assumes "i < length (selectedConcepts options analysis)"
    and "generateFor world analysis options i (selectedConcepts options analysis ! i) = Inr r"
  shows "\<exists>rs. fst (generateThumbnails world analysis options) = Inr rs \<and> rs \<noteq> []"
proof -
  let ?cs = "selectedConcepts options analysis"
  from assms(2) have "outcomeAt world analysis options ?cs i \<noteq> None"
    by (simp add: outcomeAt_None)
  with assms(1) have "successfulItems world analysis options ?cs \<noteq> []"
    by (auto simp: successfulItems_Nil)
  then show ?thesis
    by (simp add: generateThumbnails_results)
qed

lemma generateFor_okWorld:
  "\<exists>r. generateFor okWorld analysis options i c = Inr r"
  by (simp add: generateFor_def okWorld_def generateImage_side_channel truthy_key)

lemma generateThumbnails_okWorld:
  assumes "selectedConcepts options analysis \<noteq> []"
  shows "\<exists>rs. fst (generateThumbnails okWorld analysis options) = Inr rs \<and> rs \<noteq> []"
proof -
  let ?cs = "selectedConcepts options analysis"
  obtain r where "generateFor okWorld analysis options 0 (?cs ! 0) = Inr r"
    using generateFor_okWorld by blast
  moreover from assms have "0 < length ?cs"
    by simp
  ultimately show ?thesis
    by (rule generateThumbnails_some_success [rotated])
qed

lemma selectedConcepts_six:
  "selectedConcepts (noThumbnailOptions\<lparr>count := Some 6\<rparr>) fourConcepts
     = thumbnailConcepts fourConcepts"
  by (simp add: selectedConcepts_def effectiveCount_def sliceTo_def fourConcepts_def)

lemma selectedConcepts_zero:
  "selectedConcepts (noThumbnailOptions\<lparr>count := Some 0\<rparr>) fourConcepts
     = thumbnailConcepts fourConcepts"
  by (simp add: selectedConcepts_def effectiveCount_def sliceTo_def fourConcepts_def)

lemma upt_4: "[0..<4] = [0, 1, 2, 3]"
  by (simp add: upt_rec)

theorem generateThumbnails_count_cap_witness:
  "snd (generateThumbnails okWorld fourConcepts (noThumbnailOptions\<lparr>count := Some 6\<rparr>))
     = [0, 1, 2, 3]
   \<and> (\<exists>rs. fst (generateThumbnails okWorld fourConcepts (noThumbnailOptions\<lparr>count := Some 6\<rparr>))
           = Inr rs \<and> length rs \<le> 4)"
proof -
  let ?o = "noThumbnailOptions\<lparr>count := Some 6\<rparr>"
  have n: "length (thumbnailConcepts fourConcepts) = 4"
    by (rule selectedConcepts_fourConcepts)
  have "selectedConcepts ?o fourConcepts \<noteq> []"
    using n by (auto simp: selectedConcepts_six)
  then obtain rs where rs: "fst (generateThumbnails okWorld fourConcepts ?o) = Inr rs"
    using generateThumbnails_okWorld by blast
  note t = generateThumbnails_count_cap [of ?o 6 okWorld fourConcepts rs]
  have c: "count ?o = Some (int 6) \<and> (0::nat) < 6"
    by simp
  from t [THEN conjunct1] c n
  have a: "snd (generateThumbnails okWorld fourConcepts ?o) = [0, 1, 2, 3]"
    by (simp add: upt_4)
  have c6: "count ?o = Some 6 \<and> length (thumbnailConcepts fourConcepts) = 4"
    using n by simp
  from t [THEN conjunct2, THEN conjunct2, THEN conjunct2, rule_format, OF c6, THEN conjunct2] rs
  have "length rs \<le> 4"
    by simp
  with rs a show ?thesis
    by blast
qed

text \<open>
  C6 as stated fails for a requested count of zero: against four concepts the minimum of
  the count and the number of concepts is 0, and four generations are attempted and four
  thumbnails returned.
\<close>

theorem generateThumbnails_count_zero_counterexample:
  "count (noThumbnailOptions\<lparr>count := Some 0\<rparr>) = Some 0
   \<and> length (thumbnailConcepts fourConcepts) = 4
   \<and> snd (generateThumbnails okWorld fourConcepts (noThumbnailOptions\<lparr>count := Some 0\<rparr>))
       = [0, 1, 2, 3]
   \<and> \<not> length (snd (generateThumbnails okWorld fourConcepts
                        (noThumbnailOptions\<lparr>count := Some 0\<rparr>)))
         \<le> min 0 (length (thumbnailConcepts fourConcepts))"
proof -
  have n: "length (thumbnailConcepts fourConcepts) = 4"
    by (rule selectedConcepts_fourConcepts)
  have "snd (generateThumbnails okWorld fourConcepts (noThumbnailOptions\<lparr>count := Some 0\<rparr>))
       = [0, 1, 2, 3]"
    by (simp add: generateThumbnails_results selectedConcepts_zero n upt_4)
  with n show ?thesis
    by simp
qed

lemma effectiveCount_zero:
  "effectiveCount (options\<lparr>count := Some 0\<rparr>) analysis
     = effectiveCount (options\<lparr>count := None\<rparr>) analysis"
  "effectiveCount (options\<lparr>count := Some 0\<rparr>) analysis
     = int (min 4 (length (thumbnailConcepts analysis)))"
  by (simp_all add: effectiveCount_def)

lemma generateThumbnails_count_update:
  "selectedConcepts (options\<lparr>count := j\<rparr>) analysis
     = selectedConcepts (options\<lparr>count := k\<rparr>) analysis \<Longrightarrow>
   generateThumbnails world analysis (options\<lparr>count := j\<rparr>)
     = generateThumbnails world analysis (options\<lparr>count := k\<rparr>)"
  by (simp add: generateThumbnails_def generateLoop_count)

text \<open>
  C10. A call of \<open>generateThumbnails\<close> with count 0 gives the result and makes the attempts
  of the call with the count omitted: the generations attempted are those of the first
  \<open>min 4 n\<close> concepts. With at least one concept in the analysis at least one generation is
  attempted, the list returned is never empty, and a thumbnail list is returned as soon as
  one attempted generation succeeds; the only error is NoThumbnailsGenerated, raised as
  for an omitted count when every attempted generation fails.
\<close>

theorem generateThumbnails_count_zero_is_default:
  "generateThumbnails world analysis (options\<lparr>count := Some 0\<rparr>)
     = generateThumbnails world analysis (options\<lparr>count := None\<rparr>)
   \<and> snd (generateThumbnails world analysis (options\<lparr>count := Some 0\<rparr>))
       = [0..<min 4 (length (thumbnailConcepts analysis))]
   \<and> (thumbnailConcepts analysis \<noteq> [] \<longrightarrow>
        snd (generateThumbnails world analysis (options\<lparr>count := Some 0\<rparr>)) \<noteq> []
        \<and> fst (generateThumbnails world analysis (options\<lparr>count := Some 0\<rparr>)) \<noteq> Inr []
        \<and> (fst (generateThumbnails world analysis (options\<lparr>count := Some 0\<rparr>)) = Inl e \<longrightarrow>
              e = NoThumbnailsGenerated
              \<and> (\<forall>i<min 4 (length (thumbnailConcepts analysis)).
                   \<exists>e'. generateFor world analysis options i (thumbnailConcepts analysis ! i)
                          = Inl e')))"
proof -
  let ?z = "options\<lparr>count := Some 0\<rparr>"
  let ?n = "length (thumbnailConcepts analysis)"
  let ?cs = "selectedConcepts ?z analysis"
  have sel: "?cs = take (min 4 ?n) (thumbnailConcepts analysis)"
    by (simp add: selectedConcepts_def sliceTo_def effectiveCount_zero(2))
  have "selectedConcepts ?z analysis = selectedConcepts (options\<lparr>count := None\<rparr>) analysis"
    by (simp add: selectedConcepts_def effectiveCount_zero(1))
  then have c1: "generateThumbnails world analysis ?z
     = generateThumbnails world analysis (options\<lparr>count := None\<rparr>)"
    by (rule generateThumbnails_count_update)
  have len: "length ?cs = min 4 ?n"
    by (simp add: sel)
  have c2: "snd (generateThumbnails world analysis ?z) = [0..<min 4 ?n]"
    by (simp add: generateThumbnails_results len)
  have c3: "thumbnailConcepts analysis \<noteq> [] \<longrightarrow>
        snd (generateThumbnails world analysis ?z) \<noteq> []
        \<and> fst (generateThumbnails world analysis ?z) \<noteq> Inr []
        \<and> (fst (generateThumbnails world analysis ?z) = Inl e \<longrightarrow>
              e = NoThumbnailsGenerated
              \<and> (\<forall>i<min 4 ?n.
                   \<exists>e'. generateFor world analysis options i (thumbnailConcepts analysis ! i)
                          = Inl e'))"
  proof
    assume ne: "thumbnailConcepts analysis \<noteq> []"
    then have pos: "0 < min 4 ?n"
      by simp
    have a: "snd (generateThumbnails world analysis ?z) \<noteq> []"
      using pos by (simp add: c2)
    have b: "fst (generateThumbnails world analysis ?z) \<noteq> Inr []"
      by (simp add: generateThumbnails_results)
    have c: "fst (generateThumbnails world analysis ?z) = Inl e \<longrightarrow>
              e = NoThumbnailsGenerated
              \<and> (\<forall>i<min 4 ?n.
                   \<exists>e'. generateFor world analysis options i (thumbnailConcepts analysis ! i)
                          = Inl e')"
    proof
      assume f: "fst (generateThumbnails world analysis ?z) = Inl e"
      then have e: "e = NoThumbnailsGenerated"
        and nil: "successfulItems world analysis ?z ?cs = []"
        by (auto simp: generateThumbnails_results split: if_splits)
      from nil have "\<forall>i<length ?cs. \<exists>e'. generateFor world analysis ?z i (?cs ! i) = Inl e'"
        by (simp add: successfulItems_Nil outcomeAt_None)
      then have "\<forall>i<min 4 ?n.
          \<exists>e'. generateFor world analysis options i (thumbnailConcepts analysis ! i) = Inl e'"
        by (simp add: len generateFor_count) (simp add: sel)
      with e show "e = NoThumbnailsGenerated
              \<and> (\<forall>i<min 4 ?n.
                   \<exists>e'. generateFor world analysis options i (thumbnailConcepts analysis ! i)
                          = Inl e')"
        by (rule conjI)
    qed
    from a b c show "snd (generateThumbnails world analysis ?z) \<noteq> []
        \<and> fst (generateThumbnails world analysis ?z) \<noteq> Inr []
        \<and> (fst (generateThumbnails world analysis ?z) = Inl e \<longrightarrow>
              e = NoThumbnailsGenerated
              \<and> (\<forall>i<min 4 ?n.
                   \<exists>e'. generateFor world analysis options i (thumbnailConcepts analysis ! i)
                          = Inl e'))"
      by (intro conjI)
  qed
  from c1 c2 c3 show ?thesis
    by (intro conjI)
qed

theorem generateThumbnails_count_zero_is_default_witness:
  "thumbnailConcepts fourConcepts \<noteq> []
   \<and> generateThumbnails allFailWorld fourConcepts (noThumbnailOptions\<lparr>count := Some 0\<rparr>)
       = generateThumbnails allFailWorld fourConcepts (noThumbnailOptions\<lparr>count := None\<rparr>)
   \<and> snd (generateThumbnails allFailWorld fourConcepts (noThumbnailOptions\<lparr>count := Some 0\<rparr>))
       = [0, 1, 2, 3]
   \<and> fst (generateThumbnails allFailWorld fourConcepts (noThumbnailOptions\<lparr>count := Some 0\<rparr>))
       = Inl NoThumbnailsGenerated
   \<and> (\<exists>e'. generateFor allFailWorld fourConcepts noThumbnailOptions 0
              (thumbnailConcepts fourConcepts ! 0) = Inl e')
   \<and> (\<exists>e'. generateFor allFailWorld fourConcepts noThumbnailOptions 3
              (thumbnailConcepts fourConcepts ! 3) = Inl e')"
proof -
  let ?z = "noThumbnailOptions\<lparr>count := Some 0\<rparr>"
  have n: "length (thumbnailConcepts fourConcepts) = 4"
    by (rule selectedConcepts_fourConcepts)
  then have ne: "thumbnailConcepts fourConcepts \<noteq> []"
    by auto
  have "\<forall>i<length (selectedConcepts ?z fourConcepts).
      \<exists>e. generateFor allFailWorld fourConcepts ?z i (selectedConcepts ?z fourConcepts ! i) = Inl e"
    by (simp add: generateFor_def allFailWorld_def generateImage_throws truthy_key)
  then have "successfulItems allFailWorld fourConcepts ?z (selectedConcepts ?z fourConcepts) = []"
    by (simp add: successfulItems_Nil outcomeAt_None)
  then have f: "fst (generateThumbnails allFailWorld fourConcepts ?z) = Inl NoThumbnailsGenerated"
    by (simp add: generateThumbnails_results)
  note t = generateThumbnails_count_zero_is_default
    [of allFailWorld fourConcepts noThumbnailOptions NoThumbnailsGenerated]
  have a: "generateThumbnails allFailWorld fourConcepts ?z
       = generateThumbnails allFailWorld fourConcepts (noThumbnailOptions\<lparr>count := None\<rparr>)"
    by (rule t [THEN conjunct1])
  have b: "snd (generateThumbnails allFailWorld fourConcepts ?z) = [0, 1, 2, 3]"
    using t [THEN conjunct2, THEN conjunct1] by (simp add: n upt_4)
  from t [THEN conjunct2, THEN conjunct2, rule_format, OF ne,
      THEN conjunct2, THEN conjunct2, rule_format, OF f, THEN conjunct2]
  have c: "\<forall>i<4. \<exists>e'. generateFor allFailWorld fourConcepts noThumbnailOptions i
                      (thumbnailConcepts fourConcepts ! i) = Inl e'"
    by (simp add: n)
  from c have c0: "\<exists>e'. generateFor allFailWorld fourConcepts noThumbnailOptions 0
              (thumbnailConcepts fourConcepts ! 0) = Inl e'"
    and c3: "\<exists>e'. generateFor allFailWorld fourConcepts noThumbnailOptions 3
              (thumbnailConcepts fourConcepts ! 3) = Inl e'"
    by simp_all
  from ne a b f c0 c3 show ?thesis
    by (intro conjI)
qed

section \<open>Properties of the analyses\<close>

lemma textCompletion_ok:
  "truthy k \<Longrightarrow> p (completionRequest c opts) = HttpOk data \<Longrightarrow>
     textCompletion k p c opts = (Inr (responseText data), [completionRequest c opts])"
  by (simp add: textCompletion_def)

lemma textCompletion_requests:
  "snd (textCompletion k p c opts) = (if truthy k then [completionRequest c opts] else [])"
  by (simp add: textCompletion_def)

lemma textCompletion_errors:
  "fst (textCompletion k p c opts) = Inl e \<Longrightarrow>
     e = ConfigurationError \<or> e = NetworkError \<or> (\<exists>s b. e = ProviderError s b)"
  by (auto simp: textCompletion_def split: if_splits http_outcome.splits)

lemma analyzeVideo_empty:
  "resolvedTranscript env url = [] \<Longrightarrow> meta_title (getVideoMetadata fetchOembed url) = [] \<Longrightarrow>
     analyzeVideo env fetchOembed world url = (Inl NoContentAvailable, [])"
  by (simp add: analyzeVideo_def)

lemma analyzeVideo_proceeds:
  assumes "\<not> (resolvedTranscript env url = [] \<and> meta_title (getVideoMetadata fetchOembed url) = [])"
  shows "analyzeVideo env fetchOembed world url =
     (case textCompletion (worldApiKey world) (completionProvider world)
             (ContentText (analysisPrompt (getVideoMetadata fetchOembed url)
                             (resolvedTranscript env url))) analysisOptions of
        (Inl e, requests) \<Rightarrow> (Inl e, requests)
      | (Inr result, requests) \<Rightarrow>
          (case jsonParse world (cleanedAnalysis result) of
             None \<Rightarrow> (Inl AnalysisParseError, requests)
           | Some v \<Rightarrow> (Inr v, requests)))"
  using assms by (auto simp: analyzeVideo_def Let_def)

text \<open>
  C5. \<open>analyzeVideo\<close> raises NoContentAvailable exactly when the resolved transcript (the
  empty string when \<open>extractTranscript\<close> fails) and the title of the fetched metadata are
  both empty, and then sends no completion request. When either is not empty it builds
  the prompt from them and sends it (the API key being set); when the provider answers
  and the text of the answer, without its markdown fences, parses, the parsed value is
  returned; the errors left are those of the completion call and the parse error.
\<close>

theorem analyzeVideo_no_content:
  "(fst (analyzeVideo env fetchOembed world url) = Inl NoContentAvailable
      \<longleftrightarrow> resolvedTranscript env url = [] \<and> meta_title (getVideoMetadata fetchOembed url) = [])
   \<and> (resolvedTranscript env url = [] \<and> meta_title (getVideoMetadata fetchOembed url) = []
        \<longrightarrow> snd (analyzeVideo env fetchOembed world url) = [])
   \<and> (\<not> (resolvedTranscript env url = [] \<and> meta_title (getVideoMetadata fetchOembed url) = [])
        \<and> truthy (worldApiKey world)
        \<longrightarrow> snd (analyzeVideo env fetchOembed world url)
            = [completionRequest
                 (ContentText (analysisPrompt (getVideoMetadata fetchOembed url)
                                 (resolvedTranscript env url))) analysisOptions])
   \<and> (\<not> (resolvedTranscript env url = [] \<and> meta_title (getVideoMetadata fetchOembed url) = [])
        \<and> truthy (worldApiKey world)
        \<and> completionProvider world
             (completionRequest
                (ContentText (analysisPrompt (getVideoMetadata fetchOembed url)
                                (resolvedTranscript env url))) analysisOptions) = HttpOk data
        \<and> jsonParse world (cleanedAnalysis (responseText data)) = Some v
        \<longrightarrow> fst (analyzeVideo env fetchOembed world url) = Inr v)
   \<and> (\<not> (resolvedTranscript env url = [] \<and> meta_title (getVideoMetadata fetchOembed url) = [])
        \<and> fst (analyzeVideo env fetchOembed world url) = Inl e
        \<longrightarrow> e = ConfigurationError \<or> e = NetworkError \<or> e = AnalysisParseError
            \<or> (\<exists>s b. e = ProviderError s b))"
proof -
  let ?t = "resolvedTranscript env url"
  let ?m = "getVideoMetadata fetchOembed url"
  let ?c = "ContentText (analysisPrompt ?m ?t)"
  let ?tc = "textCompletion (worldApiKey world) (completionProvider world) ?c analysisOptions"
  let ?a = "analyzeVideo env fetchOembed world url"
  have errs: "e' = ConfigurationError \<or> e' = NetworkError \<or> e' = AnalysisParseError
            \<or> (\<exists>s b. e' = ProviderError s b)"
    if ne: "\<not> (?t = [] \<and> meta_title ?m = [])" and f: "fst ?a = Inl e'" for e'
  proof (cases ?tc)
    case (Pair r requests)
    show ?thesis
    proof (cases r)
      case (Inl e0)
      with Pair f ne have "e' = e0"
        by (simp add: analyzeVideo_proceeds)
      moreover from Pair Inl have "fst ?tc = Inl e0"
        by simp
      ultimately show ?thesis
        using textCompletion_errors [of "worldApiKey world" "completionProvider world" ?c
            analysisOptions e0] by blast
    next
      case (Inr result)
      with Pair f ne have "e' = AnalysisParseError"
        by (auto simp: analyzeVideo_proceeds split: option.splits)
      then show ?thesis
        by simp
    qed
  qed
  have c1: "fst ?a = Inl NoContentAvailable \<longleftrightarrow> ?t = [] \<and> meta_title ?m = []"
  proof
    assume f: "fst ?a = Inl NoContentAvailable"
    show "?t = [] \<and> meta_title ?m = []"
    proof (rule ccontr)
      assume "\<not> (?t = [] \<and> meta_title ?m = [])"
      from errs [OF this f] show False
        by simp
    qed
  next
    assume "?t = [] \<and> meta_title ?m = []"
    then show "fst ?a = Inl NoContentAvailable"
      by (simp add: analyzeVideo_empty)
  qed
  have c2: "?t = [] \<and> meta_title ?m = [] \<longrightarrow> snd ?a = []"
    by (simp add: analyzeVideo_empty)
  have c3: "\<not> (?t = [] \<and> meta_title ?m = []) \<and> truthy (worldApiKey world)
        \<longrightarrow> snd ?a = [completionRequest ?c analysisOptions]"
  proof
    assume h: "\<not> (?t = [] \<and> meta_title ?m = []) \<and> truthy (worldApiKey world)"
    then have ne: "\<not> (?t = [] \<and> meta_title ?m = [])" and k: "truthy (worldApiKey world)"
      by simp_all
    obtain r requests where p: "?tc = (r, requests)"
      by (cases ?tc)
    with textCompletion_requests [of "worldApiKey world" "completionProvider world" ?c
        analysisOptions] k
    have "requests = [completionRequest ?c analysisOptions]"
      by simp
    with p show "snd ?a = [completionRequest ?c analysisOptions]"
      by (cases r) (simp_all add: analyzeVideo_proceeds [OF ne] split: option.splits)
  qed
  have c4: "\<not> (?t = [] \<and> meta_title ?m = []) \<and> truthy (worldApiKey world)
        \<and> completionProvider world (completionRequest ?c analysisOptions) = HttpOk data
        \<and> jsonParse world (cleanedAnalysis (responseText data)) = Some v
        \<longrightarrow> fst ?a = Inr v"
  proof
    assume h: "\<not> (?t = [] \<and> meta_title ?m = []) \<and> truthy (worldApiKey world)
        \<and> completionProvider world (completionRequest ?c analysisOptions) = HttpOk data
        \<and> jsonParse world (cleanedAnalysis (responseText data)) = Some v"
    then have ne: "\<not> (?t = [] \<and> meta_title ?m = [])"
      by simp
    from h have "?tc = (Inr (responseText data), [completionRequest ?c analysisOptions])"
      by (simp add: textCompletion_ok)
    with h show "fst ?a = Inr v"
      by (simp add: analyzeVideo_proceeds [OF ne])
  qed
  have c5: "\<not> (?t = [] \<and> meta_title ?m = []) \<and> fst ?a = Inl e
        \<longrightarrow> e = ConfigurationError \<or> e = NetworkError \<or> e = AnalysisParseError
            \<or> (\<exists>s b. e = ProviderError s b)"
    using errs by blast
  from c1 c2 c3 c4 c5 show ?thesis
    by (intro conjI)
qed

lemma resolvedTranscript_silentEnv: "resolvedTranscript silentEnv url = []"
  by (simp add: resolvedTranscript_def extractTranscript_def silentEnv_def tryLibrary_def
      tryVtd_def tryApi1_def tryApi2_def split: option.splits)

lemma getVideoMetadata_examples:
  "getVideoMetadata titledOembed url = \<lparr>meta_title = lit ''A video'', meta_author = []\<rparr>"
  "getVideoMetadata noOembed url = \<lparr>meta_title = [], meta_author = []\<rparr>"
  by (simp_all add: getVideoMetadata_def titledOembed_def noOembed_def orDefault_def lit_eq_Nil)

lemma cleaned_fencedResponse:
  "cleanedAnalysis (responseText fencedResponse) = lit ''{}''"
  "cleanedFace (responseText fencedResponse) = lit ''{}''"
  by (simp_all add: cleanedAnalysis_def cleanedFace_def responseText_def fencedResponse_def
      fence_def lit_def reThenOpt_def reThenStar_def isChar_def trim_def isWhite_def)

theorem analyzeVideo_no_content_witness:
  "analyzeVideo silentEnv noOembed fencedWorld (lit ''https://youtu.be/dQw4w9WgXcQ'')
     = (Inl NoContentAvailable, [])
   \<and> fst (analyzeVideo silentEnv titledOembed fencedWorld (lit ''https://youtu.be/dQw4w9WgXcQ''))
     = Inr (JObj [])"
proof -
  let ?u = "lit ''https://youtu.be/dQw4w9WgXcQ''"
  have e: "resolvedTranscript silentEnv ?u = []
      \<and> meta_title (getVideoMetadata noOembed ?u) = []"
    by (simp add: resolvedTranscript_silentEnv getVideoMetadata_examples)
  note t1 = analyzeVideo_no_content [of silentEnv noOembed fencedWorld ?u]
  from t1 [THEN conjunct1] e
  have a1: "fst (analyzeVideo silentEnv noOembed fencedWorld ?u) = Inl NoContentAvailable"
    by (rule iffD2)
  from t1 [THEN conjunct2, THEN conjunct1, rule_format, OF e]
  have a2: "snd (analyzeVideo silentEnv noOembed fencedWorld ?u) = []" .
  from a1 a2 have a: "analyzeVideo silentEnv noOembed fencedWorld ?u = (Inl NoContentAvailable, [])"
    by (simp add: prod_eq_iff)
  have h: "\<not> (resolvedTranscript silentEnv ?u = []
              \<and> meta_title (getVideoMetadata titledOembed ?u) = [])
        \<and> truthy (worldApiKey fencedWorld)
        \<and> completionProvider fencedWorld
             (completionRequest
                (ContentText (analysisPrompt (getVideoMetadata titledOembed ?u)
                                (resolvedTranscript silentEnv ?u))) analysisOptions)
            = HttpOk fencedResponse
        \<and> jsonParse fencedWorld (cleanedAnalysis (responseText fencedResponse)) = Some (JObj [])"
    by (simp add: getVideoMetadata_examples lit_eq_Nil fencedWorld_def truthy_key
        cleaned_fencedResponse emptyObjectParse_def)
  from analyzeVideo_no_content [of silentEnv titledOembed fencedWorld ?u fencedResponse "JObj []",
      THEN conjunct2, THEN conjunct2, THEN conjunct2, THEN conjunct1, rule_format, OF h]
  have b: "fst (analyzeVideo silentEnv titledOembed fencedWorld ?u) = Inr (JObj [])" .
  from a b show ?thesis
    by (rule conjI)
qed

lemma POST_rejects:
  "length faceImages = 0 \<or> 5 < length faceImages \<Longrightarrow>
     httpStatus (POST world (Body (ImagesArray faceImages))) = 400
     \<and> analyzerCalls (POST world (Body (ImagesArray faceImages))) = []
     \<and> sentRequests (POST world (Body (ImagesArray faceImages))) = []"
  by (auto simp: POST_def)

lemma POST_accepts:
  assumes "1 \<le> length faceImages" and "length faceImages \<le> 5"
  shows "analyzerCalls (POST world (Body (ImagesArray faceImages))) = [faceImages]"
    and "httpStatus (POST world (Body (ImagesArray faceImages))) \<noteq> 400"
    and "sentRequests (POST world (Body (ImagesArray faceImages)))
           = snd (analyzeFace world faceImages)"
proof -
  obtain r requests where a: "analyzeFace world faceImages = (r, requests)"
    by (cases "analyzeFace world faceImages")
  from assms have n: "length faceImages \<noteq> 0" "\<not> 5 < length faceImages"
    by (simp_all add: Suc_le_eq)
  show "analyzerCalls (POST world (Body (ImagesArray faceImages))) = [faceImages]"
    using n a by (cases r) (simp_all add: POST_def)
  show "httpStatus (POST world (Body (ImagesArray faceImages))) \<noteq> 400"
    using n a by (cases r) (simp_all add: POST_def)
  show "sentRequests (POST world (Body (ImagesArray faceImages)))
           = snd (analyzeFace world faceImages)"
    using n a by (cases r) (simp_all add: POST_def)
qed

lemma POST_other_bodies:
  "analyzerCalls (POST world BodyThrows) = []"
  "analyzerCalls (POST world (Body ImagesFalsy)) = []"
  "analyzerCalls (POST world (Body ImagesNotArray)) = []"
  by (simp_all add: POST_def)

text \<open>
  C7. \<open>analyzeFace\<close> called with the empty list raises InvalidInput and has sent no
  request, whatever the world. The endpoint answers a \<open>faceImages\<close> list that is empty or
  longer than 5 with status 400, without a call of \<open>analyzeFace\<close> and without a request;
  it calls \<open>analyzeFace\<close>, once and with the list, exactly for the lists of 1 to 5
  entries, and then does not answer 400.
\<close>

theorem analyzeFace_empty_and_route_limits:
  "analyzeFace world [] = (Inl InvalidInput, [])
   \<and> httpStatus (POST world (Body (ImagesArray []))) = 400
   \<and> analyzerCalls (POST world (Body (ImagesArray []))) = []
   \<and> sentRequests (POST world (Body (ImagesArray []))) = []
   \<and> (5 < length faceImages \<longrightarrow>
        httpStatus (POST world (Body (ImagesArray faceImages))) = 400
        \<and> analyzerCalls (POST world (Body (ImagesArray faceImages))) = []
        \<and> sentRequests (POST world (Body (ImagesArray faceImages))) = [])
   \<and> (1 \<le> length faceImages \<and> length faceImages \<le> 5 \<longrightarrow>
        analyzerCalls (POST world (Body (ImagesArray faceImages))) = [faceImages]
        \<and> httpStatus (POST world (Body (ImagesArray faceImages))) \<noteq> 400
        \<and> sentRequests (POST world (Body (ImagesArray faceImages)))
            = snd (analyzeFace world faceImages))
   \<and> (analyzerCalls (POST world body) \<noteq> [] \<longleftrightarrow>
        (\<exists>imgs. body = Body (ImagesArray imgs) \<and> 1 \<le> length imgs \<and> length imgs \<le> 5))"
proof -
  have c1: "analyzeFace world [] = (Inl InvalidInput, [])"
    by (simp add: analyzeFace_def)
  have c2: "httpStatus (POST world (Body (ImagesArray []))) = 400
     \<and> analyzerCalls (POST world (Body (ImagesArray []))) = []
     \<and> sentRequests (POST world (Body (ImagesArray []))) = []"
    by (rule POST_rejects) simp
  have c3: "5 < length faceImages \<longrightarrow>
        httpStatus (POST world (Body (ImagesArray faceImages))) = 400
        \<and> analyzerCalls (POST world (Body (ImagesArray faceImages))) = []
        \<and> sentRequests (POST world (Body (ImagesArray faceImages))) = []"
    using POST_rejects [of faceImages world] by blast
  have c4: "1 \<le> length faceImages \<and> length faceImages \<le> 5 \<longrightarrow>
        analyzerCalls (POST world (Body (ImagesArray faceImages))) = [faceImages]
        \<and> httpStatus (POST world (Body (ImagesArray faceImages))) \<noteq> 400
        \<and> sentRequests (POST world (Body (ImagesArray faceImages)))
            = snd (analyzeFace world faceImages)"
    using POST_accepts [of faceImages world] by blast
  have c5: "analyzerCalls (POST world body) \<noteq> [] \<longleftrightarrow>
        (\<exists>imgs. body = Body (ImagesArray imgs) \<and> 1 \<le> length imgs \<and> length imgs \<le> 5)"
  proof (cases body)
    case BodyThrows
    then show ?thesis
      by (simp add: POST_other_bodies)
  next
    case (Body f)
    show ?thesis
    proof (cases f)
      case ImagesFalsy
      with Body show ?thesis
        by (simp add: POST_other_bodies)
    next
      case ImagesNotArray
      with Body show ?thesis
        by (simp add: POST_other_bodies)
    next
      case (ImagesArray imgs)
      show ?thesis
      proof (cases "1 \<le> length imgs \<and> length imgs \<le> 5")
        case True
        with Body ImagesArray POST_accepts(1) [of imgs world] show ?thesis
          by simp
      next
        case False
        then have "length imgs = 0 \<or> 5 < length imgs"
          by (auto simp: Suc_le_eq)
        from POST_rejects [OF this, of world] Body ImagesArray False show ?thesis
          by simp
      qed
    qed
  qed
  from c1 c2 c3 c4 c5 show ?thesis
    by (intro conjI) (simp_all only: simp_thms)
qed

theorem analyzeFace_empty_and_route_limits_witness:
  "analyzeFace proseWorld [] = (Inl InvalidInput, [])
   \<and> httpStatus (POST proseWorld (Body (ImagesArray (replicate 6 (lit ''AAAA''))))) = 400
   \<and> analyzerCalls (POST proseWorld (Body (ImagesArray (replicate 6 (lit ''AAAA''))))) = []
   \<and> sentRequests (POST proseWorld (Body (ImagesArray (replicate 6 (lit ''AAAA''))))) = []
   \<and> analyzerCalls (POST proseWorld (Body (ImagesArray [lit ''AAAA'', lit ''BBBB''])))
       = [[lit ''AAAA'', lit ''BBBB'']]
   \<and> httpStatus (POST proseWorld (Body (ImagesArray [lit ''AAAA'', lit ''BBBB'']))) \<noteq> 400"
proof -
  note t6 = analyzeFace_empty_and_route_limits
    [of proseWorld "replicate 6 (lit ''AAAA'')" "Body (ImagesArray [])"]
  note t2 = analyzeFace_empty_and_route_limits
    [of proseWorld "[lit ''AAAA'', lit ''BBBB'']" "Body (ImagesArray [])"]
  have a: "analyzeFace proseWorld [] = (Inl InvalidInput, [])"
    by (rule t6 [THEN conjunct1])
  have "5 < length (replicate 6 (lit ''AAAA''))"
    by simp
  from t6 [THEN conjunct2, THEN conjunct2, THEN conjunct2, THEN conjunct2, THEN conjunct1,
      rule_format, OF this]
  have b: "httpStatus (POST proseWorld (Body (ImagesArray (replicate 6 (lit ''AAAA''))))) = 400
   \<and> analyzerCalls (POST proseWorld (Body (ImagesArray (replicate 6 (lit ''AAAA''))))) = []
   \<and> sentRequests (POST proseWorld (Body (ImagesArray (replicate 6 (lit ''AAAA''))))) = []" .
  have "1 \<le> length [lit ''AAAA'', lit ''BBBB''] \<and> length [lit ''AAAA'', lit ''BBBB''] \<le> 5"
    by simp
  from t2 [THEN conjunct2, THEN conjunct2, THEN conjunct2, THEN conjunct2, THEN conjunct2,
      THEN conjunct1, rule_format, OF this]
  have c: "analyzerCalls (POST proseWorld (Body (ImagesArray [lit ''AAAA'', lit ''BBBB''])))
       = [[lit ''AAAA'', lit ''BBBB'']]
   \<and> httpStatus (POST proseWorld (Body (ImagesArray [lit ''AAAA'', lit ''BBBB'']))) \<noteq> 400"
    by simp
  from a b c show ?thesis
    by simp
qed

lemma analyzeFace_completed:
  assumes "faceImagesBase64 \<noteq> []"
    and "fst (textCompletion (worldApiKey world) (completionProvider world)
                (ContentParts (faceContent faceImagesBase64)) faceOptions) = Inr response"
  shows "fst (analyzeFace world faceImagesBase64) =
     Inr (case jsonParse world (cleanedFace response) of
            None \<Rightarrow> fallbackAnalysis response (length faceImagesBase64)
          | Some parsed \<Rightarrow>
              (case parsedAnalysis parsed (length faceImagesBase64) of
                 None \<Rightarrow> fallbackAnalysis response (length faceImagesBase64)
               | Some analysis \<Rightarrow> analysis))"
proof -
  obtain r requests where p:
    "textCompletion (worldApiKey world) (completionProvider world)
       (ContentParts (faceContent faceImagesBase64)) faceOptions = (r, requests)"
    by (cases "textCompletion (worldApiKey world) (completionProvider world)
       (ContentParts (faceContent faceImagesBase64)) faceOptions")
  with assms(2) have "r = Inr response"
    by simp
  with p assms(1) show ?thesis
    by (simp add: analyzeFace_def)
qed

lemma parsedAnalysis_null: "parsedAnalysis JNull n = None"
  by (simp add: parsedAnalysis_def)

text \<open>
  C8. Whenever the completion call returns a response (for every answer of the provider,
  the API key being set) and the text of the response, without its markdown fences and
  trimmed, does not parse, \<open>analyzeFace\<close> returns, and returns the analysis whose
  description is the trimmed response, whose feature list is empty, whose age range and
  gender presentation are "unknown" and whose photo count is the number of images. The
  same analysis is returned when the response parses to \<open>null\<close>.
\<close>

theorem analyzeFace_parse_failure_fallback:
  "(faceImagesBase64 \<noteq> []
     \<and> fst (textCompletion (worldApiKey world) (completionProvider world)
              (ContentParts (faceContent faceImagesBase64)) faceOptions) = Inr response
     \<and> jsonParse world (cleanedFace response) = None
     \<longrightarrow> fst (analyzeFace world faceImagesBase64)
         = Inr \<lparr>face_description = JStr (trim response),
                face_keyFeatures = JArr [],
                face_ageRange = JStr (lit ''unknown''),
                face_genderPresentation = JStr (lit ''unknown''),
                face_photoCount = length faceImagesBase64\<rparr>)
   \<and> (faceImagesBase64 \<noteq> [] \<and> truthy (worldApiKey world)
     \<and> completionProvider world
          (completionRequest (ContentParts (faceContent faceImagesBase64)) faceOptions)
         = HttpOk data
     \<and> jsonParse world (cleanedFace (responseText data)) = None
     \<longrightarrow> fst (analyzeFace world faceImagesBase64)
         = Inr \<lparr>face_description = JStr (trim (responseText data)),
                face_keyFeatures = JArr [],
                face_ageRange = JStr (lit ''unknown''),
                face_genderPresentation = JStr (lit ''unknown''),
                face_photoCount = length faceImagesBase64\<rparr>)
   \<and> (faceImagesBase64 \<noteq> []
     \<and> fst (textCompletion (worldApiKey world) (completionProvider world)
              (ContentParts (faceContent faceImagesBase64)) faceOptions) = Inr response
     \<and> jsonParse world (cleanedFace response) = Some JNull
     \<longrightarrow> fst (analyzeFace world faceImagesBase64)
         = Inr (fallbackAnalysis response (length faceImagesBase64)))
   \<and> (faceImagesBase64 \<noteq> []
     \<and> fst (textCompletion (worldApiKey world) (completionProvider world)
              (ContentParts (faceContent faceImagesBase64)) faceOptions) = Inr response
     \<longrightarrow> (\<exists>analysis. fst (analyzeFace world faceImagesBase64) = Inr analysis
            \<and> face_photoCount analysis = length faceImagesBase64))"
proof -
  let ?tc = "textCompletion (worldApiKey world) (completionProvider world)
              (ContentParts (faceContent faceImagesBase64)) faceOptions"
  let ?n = "length faceImagesBase64"
  have c1: "faceImagesBase64 \<noteq> [] \<and> fst ?tc = Inr response
     \<and> jsonParse world (cleanedFace response) = None
     \<longrightarrow> fst (analyzeFace world faceImagesBase64)
         = Inr \<lparr>face_description = JStr (trim response),
                face_keyFeatures = JArr [],
                face_ageRange = JStr (lit ''unknown''),
                face_genderPresentation = JStr (lit ''unknown''),
                face_photoCount = ?n\<rparr>"
    by (simp add: analyzeFace_completed fallbackAnalysis_def)
  have c2: "faceImagesBase64 \<noteq> [] \<and> truthy (worldApiKey world)
     \<and> completionProvider world
          (completionRequest (ContentParts (faceContent faceImagesBase64)) faceOptions)
         = HttpOk data
     \<and> jsonParse world (cleanedFace (responseText data)) = None
     \<longrightarrow> fst (analyzeFace world faceImagesBase64)
         = Inr \<lparr>face_description = JStr (trim (responseText data)),
                face_keyFeatures = JArr [],
                face_ageRange = JStr (lit ''unknown''),
                face_genderPresentation = JStr (lit ''unknown''),
                face_photoCount = ?n\<rparr>"
  proof
    assume h: "faceImagesBase64 \<noteq> [] \<and> truthy (worldApiKey world)
     \<and> completionProvider world
          (completionRequest (ContentParts (faceContent faceImagesBase64)) faceOptions)
         = HttpOk data
     \<and> jsonParse world (cleanedFace (responseText data)) = None"
    then have "fst ?tc = Inr (responseText data)"
      by (simp add: textCompletion_ok)
    with h show "fst (analyzeFace world faceImagesBase64)
         = Inr \<lparr>face_description = JStr (trim (responseText data)),
                face_keyFeatures = JArr [],
                face_ageRange = JStr (lit ''unknown''),
                face_genderPresentation = JStr (lit ''unknown''),
                face_photoCount = ?n\<rparr>"
      by (simp add: analyzeFace_completed fallbackAnalysis_def)
  qed
  have c3: "faceImagesBase64 \<noteq> [] \<and> fst ?tc = Inr response
     \<and> jsonParse world (cleanedFace response) = Some JNull
     \<longrightarrow> fst (analyzeFace world faceImagesBase64) = Inr (fallbackAnalysis response ?n)"
    by (simp add: analyzeFace_completed parsedAnalysis_null)
  have c4: "faceImagesBase64 \<noteq> [] \<and> fst ?tc = Inr response
     \<longrightarrow> (\<exists>analysis. fst (analyzeFace world faceImagesBase64) = Inr analysis
            \<and> face_photoCount analysis = ?n)"
    by (auto simp: analyzeFace_completed fallbackAnalysis_def parsedAnalysis_def
        split: option.splits)
  from c1 c2 c3 c4 show ?thesis
    by (intro conjI)
qed

theorem analyzeFace_parse_failure_fallback_witness:
  "fst (analyzeFace proseWorld [lit ''AAAA'', lit ''BBBB''])
     = Inr \<lparr>face_description = JStr (lit ''A man in his 30s.''),
            face_keyFeatures = JArr [],
            face_ageRange = JStr (lit ''unknown''),
            face_genderPresentation = JStr (lit ''unknown''),
            face_photoCount = 2\<rparr>"
proof -
  let ?imgs = "[lit ''AAAA'', lit ''BBBB'']"
  have r: "responseText proseResponse = lit '' A man in his 30s. ''"
    by (simp add: responseText_def proseResponse_def)
  have cl: "cleanedFace (lit '' A man in his 30s. '') = lit ''A man in his 30s.''"
    by (simp add: cleanedFace_def fence_def lit_def reThenStar_def isChar_def trim_def
        isWhite_def)
  have tr: "trim (lit '' A man in his 30s. '') = lit ''A man in his 30s.''"
    by (simp add: lit_def trim_def isWhite_def)
  have ne: "lit ''A man in his 30s.'' \<noteq> lit ''{}''"
    by (simp add: lit_def)
  have h: "?imgs \<noteq> [] \<and> truthy (worldApiKey proseWorld)
     \<and> completionProvider proseWorld
          (completionRequest (ContentParts (faceContent ?imgs)) faceOptions)
         = HttpOk proseResponse
     \<and> jsonParse proseWorld (cleanedFace (responseText proseResponse)) = None"
    by (simp add: proseWorld_def truthy_key r cl emptyObjectParse_def ne)
  from analyzeFace_parse_failure_fallback [of ?imgs proseWorld _ proseResponse,
      THEN conjunct2, THEN conjunct1, rule_format, OF h]
  show ?thesis
    by (simp add: r tr)
qed
end
